theory Spec2Isabelle
  imports Main "HOL-Library.Word" "HOL-Library.Sublist" "HOL-Library.Signed_Division"
begin

section \<open>The D-Bus HCI interface of the gateway (src/bluetooth/DBusHciInterface.cpp)\<close>

text \<open>
  The class \<open>DBusHciInterface\<close> drives one Bluetooth adapter through the BlueZ D-Bus
  service. Every member function is a sequence of calls into that service (and into Poco's
  and GLib's synchronisation primitives) with a little control flow in between. The
  embedding keeps exactly that: a member function is a computation that, started at some
  time, issues a list of \<^emph>\<open>events\<close> (one per external call, in the order of the source,
  each holding what the call returned) and ends in a value or in an exception.

  The service is not under the program's control, so its answers are taken from a
  \<open>world\<close>: a record of functions from the time of the call (the number of external calls
  made so far) to the answer. A theorem for every world is a theorem for every behaviour
  of the service.

  Not modelled: the progress messages written to the logger (they do not influence the
  control flow; only the logging of a caught exception is an event), and the taking and
  releasing of the two mutexes by \<open>ScopedLock\<close> (the model is one caller thread; the one
  claim about two threads has a step model of its own below).
\<close>

subsection \<open>Errors, handles, events\<close>

text \<open>
  \<open>IOException\<close> is what \<open>throwErrorIfAny\<close> throws for a GError, \<open>TimeoutException\<close>
  what \<open>waitUntilPoweredChange\<close> throws; \<open>OtherException\<close> stands for an exception
  of code that is not in this file (\<open>MACAddress::parse\<close>, \<open>Thread::join\<close>).
\<close>

datatype error = IOException string | TimeoutException string | OtherException string

text \<open>Poco's \<open>Timespan\<close> is a signed count of microseconds.\<close>

type_synonym Timespan = int

definition MILLISECONDS :: Timespan where
  "MILLISECONDS = 1000"

definition totalMilliseconds :: "Timespan \<Rightarrow> int" where
  "totalMilliseconds span = span sdiv MILLISECONDS"

text \<open>
  A proxy is a handle on the remote object at a path; its properties are read through the
  service each time. The object manager client holds the objects of the registry (path and
  interface names of each) as they were handed to it.
\<close>

datatype OrgBluezAdapter1 = OrgBluezAdapter1 (adapter_path: string)

datatype OrgBluezDevice1 = OrgBluezDevice1 (device_path: string)

datatype GDBusObjectManager = GDBusObjectManager (objects: "(string \<times> string list) list")

datatype event =
    NewAdapterProxy string "string option"
  | NewDeviceProxy string "string option"
  | NewObjectManager "string option"
  | GetPowered string bool
  | SetPowered string bool
  | GetDiscovering string bool
  | SetDiscoveryFilter string string "string option"
  | StartDiscovery string
  | StopDiscovery string
  | SignalConnectObjectAdded
  | ObjectAdded string
  | GetAddress string string
  | GetName string "string option"
  | GetRssi string "16 word"
  | GetConnected string bool
  | SetDefaultTimeout string int
  | CallConnect string "string option"
  | Broadcast
  | WaitConditionTryWait Timespan
  | ConditionTryWait int
  | LogException error
  | MainLoopIsRunning bool
  | MainLoopQuit
  | ThreadStart
  | ThreadJoin "error option"

text \<open>
  The world. A \<open>string option\<close> answer is the GError of the call (\<open>None\<close>: no error).
  \<open>object_added\<close> are the objects the service announces while the caller is parked in the
  discovery wait that began at the given time. \<open>mac_parse\<close> and \<open>mac_toString\<close> are
  \<open>MACAddress::parse\<close> and \<open>MACAddress::toString\<close>, whose code is not in this file;
  \<open>'m\<close> is the type \<open>MACAddress\<close>, ordered as the keys of a \<open>std::map\<close> are.
  The signal strength is an \<open>int16_t\<close>; the program only asks whether it is 0, so the
  16 bits are kept as they are.
\<close>

record 'm world =
  adapter_proxy_error :: "nat \<Rightarrow> string \<Rightarrow> string option"
  device_proxy_error :: "nat \<Rightarrow> string \<Rightarrow> string option"
  object_manager_error :: "nat \<Rightarrow> string option"
  managed_objects :: "nat \<Rightarrow> (string \<times> string list) list"
  object_added :: "nat \<Rightarrow> (string \<times> string list) list"
  adapter_powered :: "nat \<Rightarrow> string \<Rightarrow> bool"
  adapter_discovering :: "nat \<Rightarrow> string \<Rightarrow> bool"
  discovery_filter_error :: "nat \<Rightarrow> string \<Rightarrow> string option"
  device_address :: "nat \<Rightarrow> string \<Rightarrow> string"
  device_name :: "nat \<Rightarrow> string \<Rightarrow> string option"
  device_rssi :: "nat \<Rightarrow> string \<Rightarrow> 16 word"
  device_connected :: "nat \<Rightarrow> string \<Rightarrow> bool"
  device_connect_error :: "nat \<Rightarrow> string \<Rightarrow> string option"
  main_loop_running :: "nat \<Rightarrow> bool"
  thread_join_error :: "nat \<Rightarrow> error option"
  mac_parse :: "string \<Rightarrow> error + 'm"
  mac_toString :: "'m \<Rightarrow> char \<Rightarrow> string"

subsection \<open>Computations\<close>

text \<open>
  A computation is run at a time and gives its outcome (\<open>Inl\<close> an exception, \<open>Inr\<close> a
  value) and the events it issued. \<open>io_bind\<close> is the semicolon of the source: an exception
  of the first part skips the second.
\<close>

type_synonym 'a io = "nat \<Rightarrow> (error + 'a) \<times> event list"

definition io_return :: "'a \<Rightarrow> 'a io" where
  "io_return x = (\<lambda>t. (Inr x, []))"

definition io_throw :: "error \<Rightarrow> 'a io" where
  "io_throw e = (\<lambda>t. (Inl e, []))"

definition io_call :: "(nat \<Rightarrow> 'a) \<Rightarrow> ('a \<Rightarrow> event) \<Rightarrow> 'a io" where
  "io_call answer ev = (\<lambda>t. (Inr (answer t), [ev (answer t)]))"

definition io_bind :: "'a io \<Rightarrow> ('a \<Rightarrow> 'b io) \<Rightarrow> 'b io" where
  "io_bind m f = (\<lambda>t.
     case m t of
       (Inl e, es) \<Rightarrow> (Inl e, es)
     | (Inr x, es) \<Rightarrow> (case f x (t + length es) of (r, es') \<Rightarrow> (r, es @ es')))"

text \<open>
  Modelled from the spec: the macro \<open>BEEEON_CATCH_CHAIN_ACTION(logger, action)\<close> is not
  defined in this file. Per-device lookup failures are "caught, logged, and skipped": the
  handler catches every exception of the guarded block, logs it and runs the action.
\<close>

definition io_catch_chain_action :: "'a io \<Rightarrow> 'b io \<Rightarrow> ('a \<Rightarrow> 'b io) \<Rightarrow> 'b io" where
  "io_catch_chain_action guarded action continue = (\<lambda>t.
     case guarded t of
       (Inl e, es) \<Rightarrow>
         (case action (t + length es + 1) of (r, es') \<Rightarrow> (r, es @ [LogException e] @ es'))
     | (Inr x, es) \<Rightarrow> (case continue x (t + length es) of (r, es') \<Rightarrow> (r, es @ es')))"

subsection \<open>The calls into BlueZ, GLib and Poco\<close>

definition throwErrorIfAny :: "string option \<Rightarrow> unit io" where
  "throwErrorIfAny error =
     (case error of None \<Rightarrow> io_return () | Some message \<Rightarrow> io_throw (IOException message))"

definition org_bluez_adapter1_get_powered :: "'m world \<Rightarrow> OrgBluezAdapter1 \<Rightarrow> bool io" where
  "org_bluez_adapter1_get_powered w adapter =
     io_call (\<lambda>t. adapter_powered w t (adapter_path adapter)) (GetPowered (adapter_path adapter))"

definition org_bluez_adapter1_set_powered :: "OrgBluezAdapter1 \<Rightarrow> bool \<Rightarrow> unit io" where
  "org_bluez_adapter1_set_powered adapter value =
     io_call (\<lambda>t. ()) (\<lambda>_. SetPowered (adapter_path adapter) value)"

definition org_bluez_adapter1_get_discovering :: "'m world \<Rightarrow> OrgBluezAdapter1 \<Rightarrow> bool io" where
  "org_bluez_adapter1_get_discovering w adapter =
     io_call (\<lambda>t. adapter_discovering w t (adapter_path adapter)) (GetDiscovering (adapter_path adapter))"

definition org_bluez_adapter1_call_set_discovery_filter_sync ::
    "'m world \<Rightarrow> OrgBluezAdapter1 \<Rightarrow> string \<Rightarrow> string option io" where
  "org_bluez_adapter1_call_set_discovery_filter_sync w adapter transport =
     io_call (\<lambda>t. discovery_filter_error w t (adapter_path adapter)) (SetDiscoveryFilter (adapter_path adapter) transport)"

definition org_bluez_adapter1_call_start_discovery_sync :: "OrgBluezAdapter1 \<Rightarrow> unit io" where
  "org_bluez_adapter1_call_start_discovery_sync adapter =
     io_call (\<lambda>t. ()) (\<lambda>_. StartDiscovery (adapter_path adapter))"

definition org_bluez_adapter1_call_stop_discovery_sync :: "OrgBluezAdapter1 \<Rightarrow> unit io" where
  "org_bluez_adapter1_call_stop_discovery_sync adapter =
     io_call (\<lambda>t. ()) (\<lambda>_. StopDiscovery (adapter_path adapter))"

definition org_bluez_device1_get_address :: "'m world \<Rightarrow> OrgBluezDevice1 \<Rightarrow> string io" where
  "org_bluez_device1_get_address w device =
     io_call (\<lambda>t. device_address w t (device_path device)) (GetAddress (device_path device))"

definition org_bluez_device1_get_name :: "'m world \<Rightarrow> OrgBluezDevice1 \<Rightarrow> string option io" where
  "org_bluez_device1_get_name w device =
     io_call (\<lambda>t. device_name w t (device_path device)) (GetName (device_path device))"

definition org_bluez_device1_get_rssi :: "'m world \<Rightarrow> OrgBluezDevice1 \<Rightarrow> 16 word io" where
  "org_bluez_device1_get_rssi w device =
     io_call (\<lambda>t. device_rssi w t (device_path device)) (GetRssi (device_path device))"

definition org_bluez_device1_get_connected :: "'m world \<Rightarrow> OrgBluezDevice1 \<Rightarrow> bool io" where
  "org_bluez_device1_get_connected w device =
     io_call (\<lambda>t. device_connected w t (device_path device)) (GetConnected (device_path device))"

text \<open>The timeout of a proxy is a \<open>gint\<close>: the 64-bit millisecond count is cut to 32 bits.\<close>

definition g_dbus_proxy_set_default_timeout :: "OrgBluezDevice1 \<Rightarrow> int \<Rightarrow> unit io" where
  "g_dbus_proxy_set_default_timeout device timeout_msec =
     io_call (\<lambda>t. ()) (\<lambda>_. SetDefaultTimeout (device_path device) (signed_take_bit 31 timeout_msec))"

definition org_bluez_device1_call_connect_sync ::
    "'m world \<Rightarrow> OrgBluezDevice1 \<Rightarrow> string option io" where
  "org_bluez_device1_call_connect_sync w device =
     io_call (\<lambda>t. device_connect_error w t (device_path device)) (CallConnect (device_path device))"

definition m_waitCondition_broadcast :: "unit io" where
  "m_waitCondition_broadcast = io_call (\<lambda>t. ()) (\<lambda>_. Broadcast)"

text \<open>
  The discovery wait returns the objects announced while the caller was parked: their
  callbacks have run on the event loop thread by the time the caller goes on.
\<close>

definition m_waitCondition_tryWait ::
    "'m world \<Rightarrow> Timespan \<Rightarrow> (string \<times> string list) list io" where
  "m_waitCondition_tryWait w timeout =
     (\<lambda>t. (Inr (object_added w t), [WaitConditionTryWait timeout]))"

definition m_condition_tryWait :: "int \<Rightarrow> unit io" where
  "m_condition_tryWait milliseconds = io_call (\<lambda>t. ()) (\<lambda>_. ConditionTryWait milliseconds)"

subsection \<open>Paths and proxies\<close>

definition createAdapterPath :: "string \<Rightarrow> string" where
  "createAdapterPath name = ''/org/bluez/'' @ name"

definition createDevicePath :: "'m world \<Rightarrow> string \<Rightarrow> 'm \<Rightarrow> string" where
  "createDevicePath w name address =
     ''/org/bluez/'' @ name @ ''/dev_'' @ mac_toString w address (CHR ''_'')"

definition createBluezObjectManager :: "'m world \<Rightarrow> GDBusObjectManager io" where
  "createBluezObjectManager w =
     io_bind (\<lambda>t. (Inr (object_manager_error w t, managed_objects w t),
                   [NewObjectManager (object_manager_error w t)]))
       (\<lambda>(error, objects).
     io_bind (throwErrorIfAny error) (\<lambda>_.
     io_return (GDBusObjectManager objects)))"

definition retrieveBluezAdapter :: "'m world \<Rightarrow> string \<Rightarrow> OrgBluezAdapter1 io" where
  "retrieveBluezAdapter w path =
     io_bind (io_call (\<lambda>t. adapter_proxy_error w t path) (NewAdapterProxy path)) (\<lambda>error.
     io_bind (throwErrorIfAny error) (\<lambda>_.
     io_return (OrgBluezAdapter1 path)))"

definition retrieveBluezDevice :: "'m world \<Rightarrow> string \<Rightarrow> OrgBluezDevice1 io" where
  "retrieveBluezDevice w path =
     io_bind (io_call (\<lambda>t. device_proxy_error w t path) (NewDeviceProxy path)) (\<lambda>error.
     io_bind (throwErrorIfAny error) (\<lambda>_.
     io_return (OrgBluezDevice1 path)))"

subsection \<open>The interface object, discovery and power\<close>

record DBusHciInterface =
  m_name :: string
  m_adapter :: OrgBluezAdapter1

definition CHANGE_POWER_ATTEMPTS :: int where
  "CHANGE_POWER_ATTEMPTS = 5"

definition CHANGE_POWER_DELAY :: Timespan where
  "CHANGE_POWER_DELAY = 200 * MILLISECONDS"

definition initDiscoveryFilter :: "'m world \<Rightarrow> OrgBluezAdapter1 \<Rightarrow> string \<Rightarrow> unit io" where
  "initDiscoveryFilter w adapter trasport =
     io_bind (org_bluez_adapter1_call_set_discovery_filter_sync w adapter trasport) (\<lambda>error.
     throwErrorIfAny error)"

definition startDiscovery :: "'m world \<Rightarrow> OrgBluezAdapter1 \<Rightarrow> string \<Rightarrow> unit io" where
  "startDiscovery w adapter trasport =
     io_bind (org_bluez_adapter1_get_discovering w adapter) (\<lambda>discovering.
     if discovering then io_return ()
     else
       io_bind (initDiscoveryFilter w adapter trasport) (\<lambda>_.
       org_bluez_adapter1_call_start_discovery_sync adapter))"

definition stopDiscovery :: "'m world \<Rightarrow> OrgBluezAdapter1 \<Rightarrow> unit io" where
  "stopDiscovery w adapter =
     io_bind (org_bluez_adapter1_get_discovering w adapter) (\<lambda>discovering.
     if \<not> discovering then io_return ()
     else org_bluez_adapter1_call_stop_discovery_sync adapter)"

text \<open>
  The loop of \<open>waitUntilPoweredChange\<close>, from the value \<open>i\<close> of its counter:
  \<^verbatim>\<open>for (int i = 0; i < CHANGE_POWER_ATTEMPTS; ++i) { ... }\<close> and the throw after it.
\<close>

function waitUntilPoweredChange_loop ::
    "'m world \<Rightarrow> DBusHciInterface \<Rightarrow> string \<Rightarrow> bool \<Rightarrow> int \<Rightarrow> unit io" where
  "waitUntilPoweredChange_loop w self path powered i =
     (if i < CHANGE_POWER_ATTEMPTS then
        io_bind (retrieveBluezAdapter w path) (\<lambda>adapter.
        io_bind (org_bluez_adapter1_get_powered w adapter) (\<lambda>p.
        if p = powered then io_return ()
        else
          io_bind (m_condition_tryWait (totalMilliseconds CHANGE_POWER_DELAY)) (\<lambda>_.
          waitUntilPoweredChange_loop w self path powered (i + 1))))
      else io_throw (TimeoutException (''failed to change power of interface'' @ m_name self)))"
  by pat_completeness auto
termination
  by (relation "measure (\<lambda>(w, self, path, powered, i). nat (CHANGE_POWER_ATTEMPTS - i))")
     (auto simp: CHANGE_POWER_ATTEMPTS_def)

declare waitUntilPoweredChange_loop.simps [simp del]

definition waitUntilPoweredChange ::
    "'m world \<Rightarrow> DBusHciInterface \<Rightarrow> string \<Rightarrow> bool \<Rightarrow> unit io" where
  "waitUntilPoweredChange w self path powered = waitUntilPoweredChange_loop w self path powered 0"

definition up :: "'m world \<Rightarrow> DBusHciInterface \<Rightarrow> unit io" where
  "up w self =
     (let path = createAdapterPath (m_name self) in
      io_bind (retrieveBluezAdapter w path) (\<lambda>adapter.
      io_bind (startDiscovery w (m_adapter self) ''le'') (\<lambda>_.
      io_bind (org_bluez_adapter1_get_powered w adapter) (\<lambda>p.
      if p then io_return ()
      else
        io_bind (org_bluez_adapter1_set_powered adapter True) (\<lambda>_.
        waitUntilPoweredChange w self path True)))))"

definition down :: "'m world \<Rightarrow> DBusHciInterface \<Rightarrow> unit io" where
  "down w self =
     io_bind m_waitCondition_broadcast (\<lambda>_.
     let path = createAdapterPath (m_name self) in
     io_bind (retrieveBluezAdapter w path) (\<lambda>adapter.
     io_bind (org_bluez_adapter1_get_powered w adapter) (\<lambda>p.
     if \<not> p then io_return ()
     else
       io_bind (org_bluez_adapter1_set_powered adapter False) (\<lambda>_.
       waitUntilPoweredChange w self path False))))"

definition reset :: "'m world \<Rightarrow> DBusHciInterface \<Rightarrow> unit io" where
  "reset w self = io_bind (down w self) (\<lambda>_. up w self)"

subsection \<open>The device map and the path filter\<close>

text \<open>
  A \<open>std::map<MACAddress, string>\<close> is the list of its entries in ascending key order,
  which is the order a range-for visits them in. \<open>emplace\<close> inserts at the key's place
  and leaves the map as it is when the key is present.
\<close>

fun emplace :: "'k::linorder \<Rightarrow> 'v \<Rightarrow> ('k \<times> 'v) list \<Rightarrow> ('k \<times> 'v) list" where
  "emplace k v [] = [(k, v)]"
| "emplace k v ((k', v') # kvs) =
     (if k = k' then (k', v') # kvs
      else if k < k' then (k, v) # (k', v') # kvs
      else (k', v') # emplace k v kvs)"

text \<open>\<open>std::string::find\<close>: the first position of the pattern, \<open>None\<close> for \<open>npos\<close>.\<close>

fun string_find :: "string \<Rightarrow> string \<Rightarrow> nat option" where
  "string_find [] pat = (if pat = [] then Some 0 else None)"
| "string_find (c # cs) pat =
     (if prefix pat (c # cs) then Some 0 else map_option Suc (string_find cs pat))"

text \<open>
  \<open>g_dbus_object_manager_get_interface\<close> finds the object by its path and then the
  interface by its name; the result says whether the pointer is non-null.
\<close>

definition g_dbus_object_manager_get_interface ::
    "GDBusObjectManager \<Rightarrow> string \<Rightarrow> string \<Rightarrow> bool" where
  "g_dbus_object_manager_get_interface objectManager objectPath interfaceName =
     (case map_of (objects objectManager) objectPath of
        None \<Rightarrow> False
      | Some interfaces \<Rightarrow> interfaceName \<in> set interfaces)"

fun retrievePathsOfBluezObjects_loop ::
    "GDBusObjectManager \<Rightarrow> (string \<Rightarrow> bool) \<Rightarrow> string \<Rightarrow> (string \<times> string list) list \<Rightarrow>
     string list \<Rightarrow> string list" where
  "retrievePathsOfBluezObjects_loop objectManager pathFilter objectFilter [] paths = paths"
| "retrievePathsOfBluezObjects_loop objectManager pathFilter objectFilter (l # next) paths =
     (let objectPath = fst l in
      if pathFilter objectPath then
        retrievePathsOfBluezObjects_loop objectManager pathFilter objectFilter next paths
      else if \<not> g_dbus_object_manager_get_interface objectManager objectPath objectFilter then
        retrievePathsOfBluezObjects_loop objectManager pathFilter objectFilter next paths
      else
        retrievePathsOfBluezObjects_loop objectManager pathFilter objectFilter next
          (paths @ [objectPath]))"

definition retrievePathsOfBluezObjects ::
    "GDBusObjectManager \<Rightarrow> (string \<Rightarrow> bool) \<Rightarrow> string \<Rightarrow> string list" where
  "retrievePathsOfBluezObjects objectManager pathFilter objectFilter =
     retrievePathsOfBluezObjects_loop objectManager pathFilter objectFilter
       (objects objectManager) []"

subsection \<open>Discovery\<close>

text \<open>The lambda \<open>pathFilter\<close> of \<open>processKnownDevices\<close>: true means "skip this path".\<close>

definition pathFilter :: "DBusHciInterface \<Rightarrow> string \<Rightarrow> bool" where
  "pathFilter self path =
     (if string_find path (''/'' @ m_name self) = None then True else False)"

definition MACAddress_parse :: "'m world \<Rightarrow> string \<Rightarrow> 'm io" where
  "MACAddress_parse w address =
     (case mac_parse w address of Inl e \<Rightarrow> io_throw e | Inr mac \<Rightarrow> io_return mac)"

fun processKnownDevices_loop ::
    "'m::linorder world \<Rightarrow> string list \<Rightarrow> ('m \<times> string) list \<Rightarrow> ('m \<times> string) list io" where
  "processKnownDevices_loop w [] devices = io_return devices"
| "processKnownDevices_loop w (path # paths) devices =
     io_catch_chain_action (retrieveBluezDevice w path)
       (processKnownDevices_loop w paths devices)
       (\<lambda>device.
          io_bind (org_bluez_device1_get_address w device) (\<lambda>address.
          io_bind (MACAddress_parse w address) (\<lambda>mac.
          io_bind (org_bluez_device1_get_name w device) (\<lambda>charName.
          let name = (case charName of None \<Rightarrow> ''unknown'' | Some s \<Rightarrow> s) in
          processKnownDevices_loop w paths (emplace mac name devices)))))"

definition processKnownDevices ::
    "'m::linorder world \<Rightarrow> DBusHciInterface \<Rightarrow> GDBusObjectManager \<Rightarrow> ('m \<times> string) list \<Rightarrow>
     ('m \<times> string) list io" where
  "processKnownDevices w self objectManager devices =
     processKnownDevices_loop w
       (retrievePathsOfBluezObjects objectManager (pathFilter self) ''org.bluez.Device1'')
       devices"

definition onDBusObjectAdded ::
    "'m::linorder world \<Rightarrow> GDBusObjectManager \<Rightarrow> string \<Rightarrow> ('m \<times> string) list \<Rightarrow>
     ('m \<times> string) list io" where
  "onDBusObjectAdded w objectManager path foundDevices =
     (if \<not> g_dbus_object_manager_get_interface objectManager path ''org.bluez.Device1'' then
        io_return foundDevices
      else
        io_catch_chain_action (retrieveBluezDevice w path)
          (io_return foundDevices)
          (\<lambda>device.
             io_bind (org_bluez_device1_get_address w device) (\<lambda>address.
             io_bind (MACAddress_parse w address) (\<lambda>mac.
             io_bind (org_bluez_device1_get_name w device) (\<lambda>charName.
             let name = (case charName of None \<Rightarrow> ''unknown'' | Some s \<Rightarrow> s) in
             io_return (emplace mac name foundDevices))))))"

text \<open>
  The event loop thread delivers the announcements of one wait, one after the other: the
  object is in the manager's registry by then, and the callback connected by \<open>lescan\<close>
  runs on it with the map of that \<open>lescan\<close>.
\<close>

fun dispatchObjectAdded ::
    "'m::linorder world \<Rightarrow> GDBusObjectManager \<Rightarrow> (string \<times> string list) list \<Rightarrow>
     ('m \<times> string) list \<Rightarrow> ('m \<times> string) list io" where
  "dispatchObjectAdded w objectManager [] allDevices = io_return allDevices"
| "dispatchObjectAdded w objectManager (object # rest) allDevices =
     (let objectManager' = GDBusObjectManager (object # objects objectManager) in
      io_bind (io_call (\<lambda>t. ()) (\<lambda>_. ObjectAdded (fst object))) (\<lambda>_.
      io_bind (onDBusObjectAdded w objectManager' (fst object) allDevices) (\<lambda>allDevices'.
      dispatchObjectAdded w objectManager' rest allDevices')))"

text \<open>The loop of \<open>lescan\<close> over \<open>allDevices\<close> that builds \<open>foundDevices\<close>.\<close>

fun lescan_loop ::
    "'m::linorder world \<Rightarrow> DBusHciInterface \<Rightarrow> ('m \<times> string) list \<Rightarrow> ('m \<times> string) list \<Rightarrow>
     ('m \<times> string) list io" where
  "lescan_loop w self [] foundDevices = io_return foundDevices"
| "lescan_loop w self (one # rest) foundDevices =
     io_bind (retrieveBluezDevice w (createDevicePath w (m_name self) (fst one))) (\<lambda>device.
     io_bind (org_bluez_device1_get_rssi w device) (\<lambda>rssi.
     if rssi \<noteq> 0 then lescan_loop w self rest (emplace (fst one) (snd one) foundDevices)
     else lescan_loop w self rest foundDevices))"

definition lescan ::
    "'m::linorder world \<Rightarrow> DBusHciInterface \<Rightarrow> Timespan \<Rightarrow> ('m \<times> string) list io" where
  "lescan w self timeout =
     io_bind (createBluezObjectManager w) (\<lambda>objectManager.
     io_bind (processKnownDevices w self objectManager []) (\<lambda>allDevices.
     io_bind (io_call (\<lambda>t. ()) (\<lambda>_. SignalConnectObjectAdded)) (\<lambda>_.
     io_bind (startDiscovery w (m_adapter self) ''le'') (\<lambda>_.
     io_bind (m_waitCondition_tryWait w timeout) (\<lambda>announced.
     io_bind (dispatchObjectAdded w objectManager announced allDevices) (\<lambda>allDevices'.
     lescan_loop w self allDevices' []))))))"

subsection \<open>Connecting, constructing and destroying\<close>

text \<open>
  Modelled from the spec: the constructor of \<open>DBusHciConnection\<close> is not in this file.
  The connection is "bound to the adapter name, the device handle, and the timeout value":
  a record of the three arguments \<open>connect\<close> passes.
\<close>

record DBusHciConnection =
  conn_name :: string
  conn_device :: OrgBluezDevice1
  conn_timeout :: Timespan

definition connect :: "'m world \<Rightarrow> DBusHciInterface \<Rightarrow> 'm \<Rightarrow> Timespan \<Rightarrow> DBusHciConnection io" where
  "connect w self address timeout =
     (let path = createDevicePath w (m_name self) address in
      io_bind (retrieveBluezDevice w path) (\<lambda>device.
      io_bind (org_bluez_device1_get_connected w device) (\<lambda>connected.
      io_bind
        (if \<not> connected then
           io_bind (g_dbus_proxy_set_default_timeout device (totalMilliseconds timeout)) (\<lambda>_.
           io_bind (org_bluez_device1_call_connect_sync w device) (\<lambda>error.
           throwErrorIfAny error))
         else io_return ()) (\<lambda>_.
      io_return \<lparr>conn_name = m_name self, conn_device = device, conn_timeout = timeout\<rparr>))))"

definition DBusHciInterface_new :: "'m world \<Rightarrow> string \<Rightarrow> DBusHciInterface io" where
  "DBusHciInterface_new w name =
     io_bind (retrieveBluezAdapter w (createAdapterPath name)) (\<lambda>adapter.
     io_bind (io_call (\<lambda>t. ()) (\<lambda>_. ThreadStart)) (\<lambda>_.
     io_return \<lparr>m_name = name, m_adapter = adapter\<rparr>))"

definition m_thread_join :: "'m world \<Rightarrow> unit io" where
  "m_thread_join w = (\<lambda>t.
     case thread_join_error w t of
       None \<Rightarrow> (Inr (), [ThreadJoin None])
     | Some e \<Rightarrow> (Inl e, [ThreadJoin (Some e)]))"

definition DBusHciInterface_delete :: "'m world \<Rightarrow> DBusHciInterface \<Rightarrow> unit io" where
  "DBusHciInterface_delete w self =
     io_bind (stopDiscovery w (m_adapter self)) (\<lambda>_.
     io_bind (io_call (main_loop_running w) MainLoopIsRunning) (\<lambda>running.
     io_bind (if running then io_call (\<lambda>t. ()) (\<lambda>_. MainLoopQuit) else io_return ()) (\<lambda>_.
     io_catch_chain_action (m_thread_join w) (io_return ()) (\<lambda>_. io_return ()))))"

subsection \<open>The interface manager\<close>

text \<open>
  \<open>m_interfaces\<close> maps an adapter name to a pointer; a pointer is the position of the
  object among the objects allocated so far, so two pointers are the same object exactly
  when they are equal.
\<close>

record DBusHciInterfaceManager =
  m_interfaces :: "string \<rightharpoonup> nat"
  allocated :: "DBusHciInterface list"

definition DBusHciInterfaceManager_new :: DBusHciInterfaceManager where
  "DBusHciInterfaceManager_new = \<lparr>m_interfaces = Map.empty, allocated = []\<rparr>"

definition map_emplace :: "'k \<Rightarrow> 'v \<Rightarrow> ('k \<rightharpoonup> 'v) \<Rightarrow> ('k \<rightharpoonup> 'v)" where
  "map_emplace k v m = (case m k of None \<Rightarrow> m(k \<mapsto> v) | Some _ \<Rightarrow> m)"

definition lookup ::
    "'m world \<Rightarrow> string \<Rightarrow> DBusHciInterfaceManager \<Rightarrow> nat \<Rightarrow>
     ((error + nat) \<times> DBusHciInterfaceManager) \<times> event list" where
  "lookup w name mgr t =
     (case m_interfaces mgr name of
        Some it \<Rightarrow> ((Inr it, mgr), [])
      | None \<Rightarrow>
          (case DBusHciInterface_new w name t of
             (Inl e, es) \<Rightarrow> ((Inl e, mgr), es)
           | (Inr object, es) \<Rightarrow>
               (let newHci = length (allocated mgr) in
                ((Inr newHci,
                  mgr\<lparr>allocated := allocated mgr @ [object],
                      m_interfaces := map_emplace name newHci (m_interfaces mgr)\<rparr>), es))))"

text \<open>
  The same function statement by statement, for two threads that call it at once: the
  \<open>find\<close> with its test, the \<open>new\<close>, and the \<open>emplace\<close> with the return. The function
  takes no lock, so another thread can run between any two of them.
\<close>

datatype lookup_pc = AtFind | AtNew | AtEmplace nat | Returned nat | Thrown error

fun lookup_step ::
    "'m world \<Rightarrow> string \<Rightarrow> lookup_pc \<Rightarrow> DBusHciInterfaceManager \<Rightarrow> nat \<Rightarrow>
     (lookup_pc \<times> DBusHciInterfaceManager) \<times> event list" where
  "lookup_step w name AtFind mgr t =
     (case m_interfaces mgr name of
        Some it \<Rightarrow> ((Returned it, mgr), [])
      | None \<Rightarrow> ((AtNew, mgr), []))"
| "lookup_step w name AtNew mgr t =
     (case DBusHciInterface_new w name t of
        (Inl e, es) \<Rightarrow> ((Thrown e, mgr), es)
      | (Inr object, es) \<Rightarrow>
          ((AtEmplace (length (allocated mgr)), mgr\<lparr>allocated := allocated mgr @ [object]\<rparr>), es))"
| "lookup_step w name (AtEmplace newHci) mgr t =
     ((Returned newHci, mgr\<lparr>m_interfaces := map_emplace name newHci (m_interfaces mgr)\<rparr>), [])"
| "lookup_step w name (Returned it) mgr t = ((Returned it, mgr), [])"
| "lookup_step w name (Thrown e) mgr t = ((Thrown e, mgr), [])"

text \<open>
  Two threads in \<open>lookup\<close>, the first with \<open>nameA\<close> and the second with \<open>nameB\<close>; the
  schedule says which thread runs its next statement (\<open>True\<close>: the first).
\<close>

fun lookup_threads ::
    "'m world \<Rightarrow> string \<Rightarrow> string \<Rightarrow> bool list \<Rightarrow>
     lookup_pc \<times> lookup_pc \<times> DBusHciInterfaceManager \<times> nat \<Rightarrow>
     lookup_pc \<times> lookup_pc \<times> DBusHciInterfaceManager \<times> nat" where
  "lookup_threads w nameA nameB [] state = state"
| "lookup_threads w nameA nameB (first # schedule) (pcA, pcB, mgr, t) =
     (if first then
        (case lookup_step w nameA pcA mgr t of
           ((pcA', mgr'), es) \<Rightarrow>
             lookup_threads w nameA nameB schedule (pcA', pcB, mgr', t + length es))
      else
        (case lookup_step w nameB pcB mgr t of
           ((pcB', mgr'), es) \<Rightarrow>
             lookup_threads w nameA nameB schedule (pcA, pcB', mgr', t + length es)))"

text \<open>
  One interface object for each adapter name: the objects allocated have different names,
  and each is the one the map holds for its name.
\<close>

definition one_per_name :: "DBusHciInterfaceManager \<Rightarrow> bool" where
  "one_per_name mgr \<longleftrightarrow>
     distinct (map m_name (allocated mgr))
     \<and> (\<forall>i < length (allocated mgr). m_interfaces mgr (m_name (allocated mgr ! i)) = Some i)"

subsection \<open>What a run shows\<close>

text \<open>The answers of the power reads of a run, the power requests, and the poll delays.\<close>

fun polls :: "event list \<Rightarrow> bool list" where
  "polls [] = []"
| "polls (GetPowered p b # es) = b # polls es"
| "polls (e # es) = polls es"

fun power_requests :: "event list \<Rightarrow> bool list" where
  "power_requests [] = []"
| "power_requests (SetPowered p b # es) = b # power_requests es"
| "power_requests (e # es) = power_requests es"

fun delays :: "event list \<Rightarrow> int list" where
  "delays [] = []"
| "delays (ConditionTryWait ms # es) = ms # delays es"
| "delays (e # es) = delays es"

text \<open>The exception \<open>waitUntilPoweredChange\<close> ends in when its attempts are used up.\<close>

definition power_timeout :: "DBusHciInterface \<Rightarrow> error" where
  "power_timeout self = TimeoutException (''failed to change power of interface'' @ m_name self)"

fun is_GetPowered :: "event \<Rightarrow> bool" where
  "is_GetPowered (GetPowered p b) = True"
| "is_GetPowered e = False"

definition before_power_read :: "event list \<Rightarrow> event list" where
  "before_power_read tr = takeWhile (\<lambda>e. \<not> is_GetPowered e) tr"

fun is_StopDiscovery :: "event \<Rightarrow> bool" where
  "is_StopDiscovery (StopDiscovery p) = True"
| "is_StopDiscovery e = False"

text \<open>The signal-strength reads of a run: the device path asked and the answer.\<close>

fun rssi_answers :: "event list \<Rightarrow> (string \<times> 16 word) list" where
  "rssi_answers [] = []"
| "rssi_answers (GetRssi p rssi # es) = (p, rssi) # rssi_answers es"
| "rssi_answers (e # es) = rssi_answers es"

text \<open>
  The part of \<open>lescan\<close> before its last loop: what it returns is the map \<open>allDevices\<close>
  as it stands when the wait is over (see \<open>lescan_split\<close> below).
\<close>

definition lescan_accumulate ::
    "'m::linorder world \<Rightarrow> DBusHciInterface \<Rightarrow> Timespan \<Rightarrow> ('m \<times> string) list io" where
  "lescan_accumulate w self timeout =
     io_bind (createBluezObjectManager w) (\<lambda>objectManager.
     io_bind (processKnownDevices w self objectManager []) (\<lambda>allDevices.
     io_bind (io_call (\<lambda>t. ()) (\<lambda>_. SignalConnectObjectAdded)) (\<lambda>_.
     io_bind (startDiscovery w (m_adapter self) ''le'') (\<lambda>_.
     io_bind (m_waitCondition_tryWait w timeout) (\<lambda>announced.
     dispatchObjectAdded w objectManager announced allDevices)))))"

text \<open>A computation that issues no event of a given kind, whenever it is run.\<close>

definition never_emits :: "(event \<Rightarrow> bool) \<Rightarrow> 'a io \<Rightarrow> bool" where
  "never_emits P m = (\<forall>t. filter P (snd (m t)) = [])"

text \<open>
  A world in which every call succeeds and nothing is there: no objects, the adapter off
  and not discovering. Addresses are numbers, written in unary.
\<close>

definition empty_world :: "nat world" where
  "empty_world =
     \<lparr>adapter_proxy_error = (\<lambda>t p. None),
      device_proxy_error = (\<lambda>t p. None),
      object_manager_error = (\<lambda>t. None),
      managed_objects = (\<lambda>t. []),
      object_added = (\<lambda>t. []),
      adapter_powered = (\<lambda>t p. False),
      adapter_discovering = (\<lambda>t p. False),
      discovery_filter_error = (\<lambda>t p. None),
      device_address = (\<lambda>t p. []),
      device_name = (\<lambda>t p. None),
      device_rssi = (\<lambda>t p. 0),
      device_connected = (\<lambda>t p. False),
      device_connect_error = (\<lambda>t p. None),
      main_loop_running = (\<lambda>t. True),
      thread_join_error = (\<lambda>t. None),
      mac_parse = (\<lambda>s. Inr (length s)),
      mac_toString = (\<lambda>m c. replicate m c)\<rparr>"

definition hci0 :: DBusHciInterface where
  "hci0 = \<lparr>m_name = ''hci0'', m_adapter = OrgBluezAdapter1 ''/org/bluez/hci0''\<rparr>"

text \<open>
  Two devices known to the registry of adapter hci0: address 1, named "A", with signal
  strength 5, and address 2, without a name, with signal strength 0.
\<close>

definition two_devices_world :: "nat world" where
  "two_devices_world = empty_world
     \<lparr>managed_objects := (\<lambda>t.
        [(''/org/bluez/hci0/dev__'', [''org.bluez.Device1'']),
         (''/org/bluez/hci0/dev___'', [''org.bluez.Device1''])]),
      device_address := (\<lambda>t p. if p = ''/org/bluez/hci0/dev__'' then ''a'' else ''bb''),
      device_name := (\<lambda>t p. if p = ''/org/bluez/hci0/dev__'' then Some ''A'' else None),
      device_rssi := (\<lambda>t p. if p = ''/org/bluez/hci0/dev__'' then 5 else 0)\<rparr>"

text \<open>
  A world in which device objects come and go during one scan of hci0: of the two devices
  known to the registry, the first (address 1) is gone before it is looked up and the
  second (address 2) is there until time 14 and gone afterwards; a third (address 3) is
  announced during the wait and gone when its callback looks it up.
\<close>

definition vanishing_world :: "nat world" where
  "vanishing_world = empty_world
     \<lparr>managed_objects := (\<lambda>t.
        [(''/org/bluez/hci0/dev__'', [''org.bluez.Device1'']),
         (''/org/bluez/hci0/dev___'', [''org.bluez.Device1''])]),
      object_added := (\<lambda>t. [(''/org/bluez/hci0/dev____'', [''org.bluez.Device1''])]),
      device_proxy_error := (\<lambda>t p.
        if p = ''/org/bluez/hci0/dev___'' \<and> t < 14 then None else Some ''object vanished''),
      device_address := (\<lambda>t p. ''bb''),
      device_rssi := (\<lambda>t p. 5)\<rparr>"





section \<open>Running the computations\<close>

lemmas io_defs = io_return_def io_throw_def io_call_def io_bind_def throwErrorIfAny_def

lemma delay_ms: "totalMilliseconds CHANGE_POWER_DELAY = 200"
  by (simp add: totalMilliseconds_def CHANGE_POWER_DELAY_def MILLISECONDS_def
      sdiv_int_numeral_numeral)

lemma retrieveBluezAdapter_run:
  "retrieveBluezAdapter w path t =
     (case adapter_proxy_error w t path of
        None \<Rightarrow> (Inr (OrgBluezAdapter1 path), [NewAdapterProxy path None])
      | Some m \<Rightarrow> (Inl (IOException m), [NewAdapterProxy path (Some m)]))"
  by (simp add: retrieveBluezAdapter_def io_defs split: option.splits)

lemma retrieveBluezDevice_run:
  "retrieveBluezDevice w path t =
     (case device_proxy_error w t path of
        None \<Rightarrow> (Inr (OrgBluezDevice1 path), [NewDeviceProxy path None])
      | Some m \<Rightarrow> (Inl (IOException m), [NewDeviceProxy path (Some m)]))"
  by (simp add: retrieveBluezDevice_def io_defs split: option.splits)

lemma startDiscovery_run:
  "startDiscovery w adapter trasport t =
     (if adapter_discovering w t (adapter_path adapter)
      then (Inr (), [GetDiscovering (adapter_path adapter) True])
      else
        (case discovery_filter_error w (t + 1) (adapter_path adapter) of
           Some m \<Rightarrow>
             (Inl (IOException m),
              [GetDiscovering (adapter_path adapter) False,
               SetDiscoveryFilter (adapter_path adapter) trasport (Some m)])
         | None \<Rightarrow>
             (Inr (),
              [GetDiscovering (adapter_path adapter) False,
               SetDiscoveryFilter (adapter_path adapter) trasport None,
               StartDiscovery (adapter_path adapter)])))"
  by (simp add: startDiscovery_def initDiscoveryFilter_def
      org_bluez_adapter1_get_discovering_def
      org_bluez_adapter1_call_set_discovery_filter_sync_def
      org_bluez_adapter1_call_start_discovery_sync_def io_defs split: option.splits)

subsection \<open>The bounded wait\<close>

lemma loop_step:
  "waitUntilPoweredChange_loop w self path pw i t =
     (if i < 5 then
        (case adapter_proxy_error w t path of
           Some m \<Rightarrow> (Inl (IOException m), [NewAdapterProxy path (Some m)])
         | None \<Rightarrow>
            if adapter_powered w (t + 1) path = pw
            then (Inr (), [NewAdapterProxy path None, GetPowered path pw])
            else (case waitUntilPoweredChange_loop w self path pw (i + 1) (t + 3) of
                    (r, es) \<Rightarrow> (r, NewAdapterProxy path None # GetPowered path (\<not> pw)
                                  # ConditionTryWait 200 # es)))
      else (Inl (power_timeout self), []))"
  apply (subst waitUntilPoweredChange_loop.simps)
  apply (simp add: CHANGE_POWER_ATTEMPTS_def power_timeout_def retrieveBluezAdapter_run delay_ms
      org_bluez_adapter1_get_powered_def m_condition_tryWait_def io_defs
      split: option.splits prod.splits)
  apply (auto simp: numeral_3_eq_3 add.commute)
  done

lemma loop_polls:
  "0 \<le> i \<Longrightarrow> i \<le> 5 \<Longrightarrow>
   (case waitUntilPoweredChange_loop w self path pw i t of (r, tr) \<Rightarrow>
      length (polls tr) \<le> nat (5 - i)
      \<and> pw \<notin> set (butlast (polls tr))
      \<and> (r = Inr () \<longleftrightarrow> polls tr \<noteq> [] \<and> last (polls tr) = pw)
      \<and> (r = Inl (power_timeout self)
           \<longleftrightarrow> length (polls tr) = nat (5 - i) \<and> pw \<notin> set (polls tr))
      \<and> (\<forall>m. r = Inl (TimeoutException m) \<longrightarrow> r = Inl (power_timeout self))
      \<and> delays tr = replicate (length (filter (\<lambda>b. b \<noteq> pw) (polls tr))) 200
      \<and> power_requests tr = []
      \<and> filter is_StopDiscovery tr = [] \<and> Broadcast \<notin> set tr)"
proof (induction "nat (5 - i)" arbitrary: i t)
  case 0
  then have "i = 5" by simp
  then have "waitUntilPoweredChange_loop w self path pw i t = (Inl (power_timeout self), [])"
    by (subst loop_step) simp
  then show ?case using \<open>i = 5\<close> by simp
next
  case (Suc n)
  then have lt: "i < 5" and n: "n = nat (5 - (i + 1))" and b: "0 \<le> i + 1" "i + 1 \<le> 5"
    by simp_all
  note IH = Suc.hyps(1) [OF n b, of "t + 3"]
  have tmo: "power_timeout self = TimeoutException (''failed to change power of interface'' @ m_name self)"
    by (rule power_timeout_def)
  show ?case
  proof (cases "adapter_proxy_error w t path")
    case (Some m)
    with lt have "waitUntilPoweredChange_loop w self path pw i t =
        (Inl (IOException m), [NewAdapterProxy path (Some m)])"
      by (subst loop_step) simp
    then show ?thesis using lt by (simp add: tmo)
  next
    case None
    show ?thesis
    proof (cases "adapter_powered w (t + 1) path = pw")
      case True
      with None lt have "waitUntilPoweredChange_loop w self path pw i t =
          (Inr (), [NewAdapterProxy path None, GetPowered path pw])"
        by (subst loop_step) simp
      then show ?thesis using lt by simp
    next
      case False
      obtain r es where run: "waitUntilPoweredChange_loop w self path pw (i + 1) (t + 3) = (r, es)"
        by (cases "waitUntilPoweredChange_loop w self path pw (i + 1) (t + 3)")
      from IH have IH': "length (polls es) \<le> nat (5 - (i + 1))
        \<and> pw \<notin> set (butlast (polls es))
        \<and> (r = Inr () \<longleftrightarrow> polls es \<noteq> [] \<and> last (polls es) = pw)
        \<and> (r = Inl (power_timeout self)
             \<longleftrightarrow> length (polls es) = nat (5 - (i + 1)) \<and> pw \<notin> set (polls es))
        \<and> (\<forall>m. r = Inl (TimeoutException m) \<longrightarrow> r = Inl (power_timeout self))
        \<and> delays es = replicate (length (filter (\<lambda>b. b \<noteq> pw) (polls es))) 200
        \<and> power_requests es = []
        \<and> filter is_StopDiscovery es = [] \<and> Broadcast \<notin> set es"
        unfolding run prod.case .
      then have
        h1: "length (polls es) \<le> nat (5 - (i + 1))" and
        h2: "pw \<notin> set (butlast (polls es))" and
        h3: "r = Inr () \<longleftrightarrow> polls es \<noteq> [] \<and> last (polls es) = pw" and
        h4: "r = Inl (power_timeout self)
           \<longleftrightarrow> length (polls es) = nat (5 - (i + 1)) \<and> pw \<notin> set (polls es)" and
        h4': "\<forall>m. r = Inl (TimeoutException m) \<longrightarrow> r = Inl (power_timeout self)" and
        h5: "delays es = replicate (length (filter (\<lambda>b. b \<noteq> pw) (polls es))) 200" and
        h6: "power_requests es = []" and h7: "filter is_StopDiscovery es = []"
        and h8: "Broadcast \<notin> set es"
        by blast+
      have step: "waitUntilPoweredChange_loop w self path pw i t =
          (r, NewAdapterProxy path None # GetPowered path (\<not> pw) # ConditionTryWait 200 # es)"
        using lt None False run by (subst loop_step) simp
      from lt have len: "nat (5 - i) = Suc (nat (5 - (i + 1)))" by simp
      have ps: "polls (NewAdapterProxy path None # GetPowered path (\<not> pw)
                  # ConditionTryWait 200 # es) = (\<not> pw) # polls es"
        by simp
      have c1: "length ((\<not> pw) # polls es) \<le> nat (5 - i)" using h1 len by simp
      have c2: "pw \<notin> set (butlast ((\<not> pw) # polls es))" using h2 by auto
      have c3: "r = Inr () \<longleftrightarrow> (\<not> pw) # polls es \<noteq> [] \<and> last ((\<not> pw) # polls es) = pw"
        using h3 by auto
      have c4: "r = Inl (power_timeout self)
           \<longleftrightarrow> length ((\<not> pw) # polls es) = nat (5 - i) \<and> pw \<notin> set ((\<not> pw) # polls es)"
        using h4 len by auto
      have c5: "delays (NewAdapterProxy path None # GetPowered path (\<not> pw)
                  # ConditionTryWait 200 # es)
                = replicate (length (filter (\<lambda>b. b \<noteq> pw) ((\<not> pw) # polls es))) 200"
        using h5 by simp
      have c6: "power_requests (NewAdapterProxy path None # GetPowered path (\<not> pw)
                  # ConditionTryWait 200 # es) = []"
        using h6 by simp
      have c7: "filter is_StopDiscovery (NewAdapterProxy path None # GetPowered path (\<not> pw)
                  # ConditionTryWait 200 # es) = []"
        using h7 by simp
      have c8: "Broadcast \<notin> set (NewAdapterProxy path None # GetPowered path (\<not> pw)
                  # ConditionTryWait 200 # es)"
        using h8 by simp
      show ?thesis
        unfolding step prod.case ps using c1 c2 c3 c4 h4' c5 c6 c7 c8 by blast
    qed
  qed
qed

lemma waitUntilPoweredChange_run:
  "case waitUntilPoweredChange w self path pw t of (r, tr) \<Rightarrow>
      length (polls tr) \<le> 5
      \<and> pw \<notin> set (butlast (polls tr))
      \<and> (r = Inr () \<longleftrightarrow> polls tr \<noteq> [] \<and> last (polls tr) = pw)
      \<and> (r = Inl (power_timeout self) \<longleftrightarrow> length (polls tr) = 5 \<and> pw \<notin> set (polls tr))
      \<and> (\<forall>m. r = Inl (TimeoutException m) \<longrightarrow> r = Inl (power_timeout self))
      \<and> delays tr = replicate (length (filter (\<lambda>b. b \<noteq> pw) (polls tr))) 200
      \<and> power_requests tr = []
      \<and> filter is_StopDiscovery tr = [] \<and> Broadcast \<notin> set tr"
proof -
  have five: "nat (5 - (0::int)) = 5" by simp
  have "(0::int) \<le> 0" and "(0::int) \<le> 5" by simp_all
  from loop_polls [OF this, where w = w and self = self and path = path and pw = pw and t = t]
  show ?thesis unfolding waitUntilPoweredChange_def five .
qed

lemma match_is_last:
  assumes "x \<notin> set (butlast xs)" and "k < length xs" and "xs ! k = x"
  shows "Suc k = length xs"
proof (rule ccontr)
  assume "Suc k \<noteq> length xs"
  with assms(2) have short: "k < length (butlast xs)" by simp
  then have "butlast xs ! k \<in> set (butlast xs)" by (rule nth_mem)
  moreover have "butlast xs ! k = xs ! k" using short by (rule nth_butlast)
  ultimately show False using assms(1,3) by simp
qed

text \<open>
  C4. The wait polls the power state at most 5 times; a poll that sees the requested state
  is the last one (a match at the k-th poll means exactly k polls); the wait returns exactly
  when its last poll matched; it throws the TimeoutException, whose message ends in the
  adapter's name, exactly when 5 polls were made and none matched, and throws no other
  TimeoutException; and each poll that did not match is followed by one wait of 200 ms.
\<close>

theorem waitUntilPoweredChange_five_polls:
  "case waitUntilPoweredChange w self path powered t of (r, tr) \<Rightarrow>
      length (polls tr) \<le> 5
      \<and> (\<forall>k < length (polls tr). polls tr ! k = powered \<longrightarrow> Suc k = length (polls tr))
      \<and> (r = Inr () \<longleftrightarrow> polls tr \<noteq> [] \<and> last (polls tr) = powered)
      \<and> (r = Inl (TimeoutException (''failed to change power of interface'' @ m_name self))
           \<longleftrightarrow> length (polls tr) = 5 \<and> powered \<notin> set (polls tr))
      \<and> (\<forall>m. r = Inl (TimeoutException m)
           \<longrightarrow> m = ''failed to change power of interface'' @ m_name self)
      \<and> delays tr = replicate (length (filter (\<lambda>b. b \<noteq> powered) (polls tr))) 200"
proof -
  obtain r tr where run: "waitUntilPoweredChange w self path powered t = (r, tr)"
    by (cases "waitUntilPoweredChange w self path powered t")
  from waitUntilPoweredChange_run [where w = w and self = self and path = path
      and pw = powered and t = t]
  have all: "length (polls tr) \<le> 5
      \<and> powered \<notin> set (butlast (polls tr))
      \<and> (r = Inr () \<longleftrightarrow> polls tr \<noteq> [] \<and> last (polls tr) = powered)
      \<and> (r = Inl (power_timeout self)
           \<longleftrightarrow> length (polls tr) = 5 \<and> powered \<notin> set (polls tr))
      \<and> (\<forall>m. r = Inl (TimeoutException m) \<longrightarrow> r = Inl (power_timeout self))
      \<and> delays tr = replicate (length (filter (\<lambda>b. b \<noteq> powered) (polls tr))) 200
      \<and> power_requests tr = []
      \<and> filter is_StopDiscovery tr = [] \<and> Broadcast \<notin> set tr"
    unfolding run prod.case .
  then have a: "length (polls tr) \<le> 5" and b: "powered \<notin> set (butlast (polls tr))"
    and c: "r = Inr () \<longleftrightarrow> polls tr \<noteq> [] \<and> last (polls tr) = powered"
    and d: "r = Inl (power_timeout self)
           \<longleftrightarrow> length (polls tr) = 5 \<and> powered \<notin> set (polls tr)"
    and d': "\<forall>m. r = Inl (TimeoutException m) \<longrightarrow> r = Inl (power_timeout self)"
    and e: "delays tr = replicate (length (filter (\<lambda>b. b \<noteq> powered) (polls tr))) 200"
    by blast+
  have b': "\<forall>k < length (polls tr). polls tr ! k = powered \<longrightarrow> Suc k = length (polls tr)"
  proof (intro allI impI)
    fix k assume "k < length (polls tr)" and "polls tr ! k = powered"
    with b show "Suc k = length (polls tr)" by (rule match_is_last)
  qed
  have d'': "\<forall>m. r = Inl (TimeoutException m)
           \<longrightarrow> m = ''failed to change power of interface'' @ m_name self"
  proof (intro allI impI)
    fix m assume m: "r = Inl (TimeoutException m)"
    from d' [rule_format, OF m] have "r = Inl (power_timeout self)" .
    with m have "Inl (TimeoutException m) = (Inl (power_timeout self) :: error + unit)"
      by simp
    then have "TimeoutException m = power_timeout self" by (rule Inl_inject)
    then show "m = ''failed to change power of interface'' @ m_name self"
      unfolding power_timeout_def by (rule error.inject(2) [THEN iffD1])
  qed
  note d0 = d [unfolded power_timeout_def]
  show ?thesis
    unfolding run prod.case
    by (intro conjI) (rule a b' c d0 d'' e)+
qed

theorem waitUntilPoweredChange_five_polls_witness:
  "(case waitUntilPoweredChange (empty_world\<lparr>adapter_powered := \<lambda>t p. 7 \<le> t\<rparr>) hci0
          ''/org/bluez/hci0'' True 0 of
      (r, tr) \<Rightarrow> r = Inr () \<and> polls tr = [False, False, True] \<and> delays tr = [200, 200])
   \<and> (case waitUntilPoweredChange empty_world hci0 ''/org/bluez/hci0'' True 0 of
      (r, tr) \<Rightarrow> r = Inl (TimeoutException ''failed to change power of interfacehci0'')
        \<and> polls tr = [False, False, False, False, False]
        \<and> delays tr = [200, 200, 200, 200, 200])"
  using waitUntilPoweredChange_five_polls
          [where w = "empty_world\<lparr>adapter_powered := \<lambda>t p. 7 \<le> t\<rparr>" and self = hci0
             and path = "''/org/bluez/hci0''" and powered = True and t = 0]
        waitUntilPoweredChange_five_polls
          [where w = empty_world and self = hci0 and path = "''/org/bluez/hci0''"
             and powered = True and t = 0]
  by (simp add: waitUntilPoweredChange_def loop_step empty_world_def hci0_def power_timeout_def)

subsection \<open>Bringing the adapter up and down\<close>

lemma startDiscovery_cases:
  obtains
    (running) "startDiscovery w adapter trasport t =
        (Inr (), [GetDiscovering (adapter_path adapter) True])"
  | (refused) m where "startDiscovery w adapter trasport t =
        (Inl (IOException m),
         [GetDiscovering (adapter_path adapter) False,
          SetDiscoveryFilter (adapter_path adapter) trasport (Some m)])"
  | (started) "startDiscovery w adapter trasport t =
        (Inr (),
         [GetDiscovering (adapter_path adapter) False,
          SetDiscoveryFilter (adapter_path adapter) trasport None,
          StartDiscovery (adapter_path adapter)])"
proof (cases "adapter_discovering w t (adapter_path adapter)")
  case True
  then show ?thesis using running by (simp add: startDiscovery_run)
next
  case False
  show ?thesis
  proof (cases "discovery_filter_error w (t + 1) (adapter_path adapter)")
    case None
    with False show ?thesis using started by (simp add: startDiscovery_run)
  next
    case (Some m)
    with False show ?thesis using refused [of m] by (simp add: startDiscovery_run)
  qed
qed

lemma up_run:
  "up w self t =
     (case adapter_proxy_error w t (createAdapterPath (m_name self)) of
        Some m \<Rightarrow>
          (Inl (IOException m), [NewAdapterProxy (createAdapterPath (m_name self)) (Some m)])
      | None \<Rightarrow>
          (case startDiscovery w (m_adapter self) ''le'' (t + 1) of
             (Inl e, ds) \<Rightarrow> (Inl e, NewAdapterProxy (createAdapterPath (m_name self)) None # ds)
           | (Inr u, ds) \<Rightarrow>
               if adapter_powered w (t + 1 + length ds) (createAdapterPath (m_name self))
               then (Inr (),
                     NewAdapterProxy (createAdapterPath (m_name self)) None # ds
                       @ [GetPowered (createAdapterPath (m_name self)) True])
               else
                 (case waitUntilPoweredChange w self (createAdapterPath (m_name self)) True
                         (t + 3 + length ds) of
                    (r, es) \<Rightarrow>
                      (r, NewAdapterProxy (createAdapterPath (m_name self)) None # ds
                            @ GetPowered (createAdapterPath (m_name self)) False
                            # SetPowered (createAdapterPath (m_name self)) True # es))))"
proof -
  have t3: "Suc (Suc (Suc (t + n))) = t + 3 + n" for n by simp
  have t3': "Suc (Suc (t + 1 + n)) = t + 3 + n" for n by simp
  show ?thesis
    by (simp add: up_def Let_def io_bind_def io_call_def io_return_def
        retrieveBluezAdapter_run org_bluez_adapter1_get_powered_def
        org_bluez_adapter1_set_powered_def t3 t3'
        split: option.splits prod.splits sum.splits)
qed

lemma down_run:
  "down w self t =
     (case adapter_proxy_error w (t + 1) (createAdapterPath (m_name self)) of
        Some m \<Rightarrow>
          (Inl (IOException m),
           [Broadcast, NewAdapterProxy (createAdapterPath (m_name self)) (Some m)])
      | None \<Rightarrow>
          if \<not> adapter_powered w (t + 2) (createAdapterPath (m_name self))
          then (Inr (),
                [Broadcast, NewAdapterProxy (createAdapterPath (m_name self)) None,
                 GetPowered (createAdapterPath (m_name self)) False])
          else
            (case waitUntilPoweredChange w self (createAdapterPath (m_name self)) False (t + 4) of
               (r, es) \<Rightarrow>
                 (r, Broadcast # NewAdapterProxy (createAdapterPath (m_name self)) None
                       # GetPowered (createAdapterPath (m_name self)) True
                       # SetPowered (createAdapterPath (m_name self)) False # es)))"
  by (simp add: down_def Let_def io_bind_def io_call_def io_return_def
      m_waitCondition_broadcast_def
      retrieveBluezAdapter_run org_bluez_adapter1_get_powered_def
      org_bluez_adapter1_set_powered_def eval_nat_numeral
      split: option.splits prod.splits sum.splits)

lemma wait_quiet:
  assumes "waitUntilPoweredChange w self path pw t = (r, es)"
  shows "power_requests es = []" and "filter is_StopDiscovery es = []"
    and "Broadcast \<notin> set es"
proof -
  from waitUntilPoweredChange_run [where w = w and self = self and path = path
      and pw = pw and t = t]
  have "length (polls es) \<le> 5
      \<and> pw \<notin> set (butlast (polls es))
      \<and> (r = Inr () \<longleftrightarrow> polls es \<noteq> [] \<and> last (polls es) = pw)
      \<and> (r = Inl (power_timeout self) \<longleftrightarrow> length (polls es) = 5 \<and> pw \<notin> set (polls es))
      \<and> (\<forall>m. r = Inl (TimeoutException m) \<longrightarrow> r = Inl (power_timeout self))
      \<and> delays es = replicate (length (filter (\<lambda>b. b \<noteq> pw) (polls es))) 200
      \<and> power_requests es = []
      \<and> filter is_StopDiscovery es = [] \<and> Broadcast \<notin> set es"
    unfolding assms prod.case .
  then show "power_requests es = []" and "filter is_StopDiscovery es = []"
    and "Broadcast \<notin> set es"
    by blast+
qed

text \<open>
  C5. In every run of \<open>down\<close>, whatever the service answers and however the run ends, the
  broadcast on the discovery wait condition is the first thing issued: every read of the
  power state and every power request of the run comes after it. It is issued once.
\<close>

theorem down_broadcasts_first:
  "case down w self t of (r, tr) \<Rightarrow>
     \<exists>rest. tr = Broadcast # rest \<and> Broadcast \<notin> set rest
       \<and> polls rest = polls tr \<and> power_requests rest = power_requests tr"
proof (cases "adapter_proxy_error w (t + 1) (createAdapterPath (m_name self))")
  case (Some m)
  then show ?thesis by (simp add: down_run)
next
  case None
  show ?thesis
  proof (cases "adapter_powered w (t + 2) (createAdapterPath (m_name self))")
    case False
    with None show ?thesis by (simp add: down_run)
  next
    case True
    obtain r es where
      run: "waitUntilPoweredChange w self (createAdapterPath (m_name self)) False (t + 4) = (r, es)"
      by (cases "waitUntilPoweredChange w self (createAdapterPath (m_name self)) False (t + 4)")
    from wait_quiet(3) [OF run] None True run show ?thesis by (simp add: down_run)
  qed
qed

theorem down_broadcasts_first_witness:
  "case down (empty_world\<lparr>adapter_powered := \<lambda>t p. t < 6\<rparr>) hci0 0 of (r, tr) \<Rightarrow>
     r = Inr ()
     \<and> tr = [Broadcast, NewAdapterProxy ''/org/bluez/hci0'' None,
             GetPowered ''/org/bluez/hci0'' True, SetPowered ''/org/bluez/hci0'' False,
             NewAdapterProxy ''/org/bluez/hci0'' None, GetPowered ''/org/bluez/hci0'' True,
             ConditionTryWait 200,
             NewAdapterProxy ''/org/bluez/hci0'' None, GetPowered ''/org/bluez/hci0'' False]"
  using down_broadcasts_first [where w = "empty_world\<lparr>adapter_powered := \<lambda>t p. t < 6\<rparr>"
      and self = hci0 and t = 0]
  by (simp add: down_run waitUntilPoweredChange_def loop_step empty_world_def hci0_def
      createAdapterPath_def)

lemma up_cases:
  obtains
    (no_proxy) m where
      "up w self t =
         (Inl (IOException m), [NewAdapterProxy (createAdapterPath (m_name self)) (Some m)])"
  | (refused) m where
      "up w self t =
         (Inl (IOException m),
          [NewAdapterProxy (createAdapterPath (m_name self)) None,
           GetDiscovering (adapter_path (m_adapter self)) False,
           SetDiscoveryFilter (adapter_path (m_adapter self)) ''le'' (Some m)])"
  | (powered) ds where
      "up w self t =
         (Inr (), NewAdapterProxy (createAdapterPath (m_name self)) None # ds
                    @ [GetPowered (createAdapterPath (m_name self)) True])"
      "ds = [GetDiscovering (adapter_path (m_adapter self)) True]
       \<or> ds = [GetDiscovering (adapter_path (m_adapter self)) False,
                SetDiscoveryFilter (adapter_path (m_adapter self)) ''le'' None,
                StartDiscovery (adapter_path (m_adapter self))]"
  | (unpowered) ds r es t' where
      "up w self t =
         (r, NewAdapterProxy (createAdapterPath (m_name self)) None # ds
               @ GetPowered (createAdapterPath (m_name self)) False
               # SetPowered (createAdapterPath (m_name self)) True # es)"
      "ds = [GetDiscovering (adapter_path (m_adapter self)) True]
       \<or> ds = [GetDiscovering (adapter_path (m_adapter self)) False,
                SetDiscoveryFilter (adapter_path (m_adapter self)) ''le'' None,
                StartDiscovery (adapter_path (m_adapter self))]"
      "waitUntilPoweredChange w self (createAdapterPath (m_name self)) True t' = (r, es)"
proof (cases "adapter_proxy_error w t (createAdapterPath (m_name self))")
  case (Some m)
  then have "up w self t =
      (Inl (IOException m), [NewAdapterProxy (createAdapterPath (m_name self)) (Some m)])"
    by (simp add: up_run)
  then show ?thesis by (rule no_proxy)
next
  case None
  have split_up: ?thesis
    if sd: "startDiscovery w (m_adapter self) ''le'' (t + 1) = (Inr (), ds)"
    and ds: "ds = [GetDiscovering (adapter_path (m_adapter self)) True]
       \<or> ds = [GetDiscovering (adapter_path (m_adapter self)) False,
                SetDiscoveryFilter (adapter_path (m_adapter self)) ''le'' None,
                StartDiscovery (adapter_path (m_adapter self))]" for ds
  proof (cases "adapter_powered w (t + 1 + length ds) (createAdapterPath (m_name self))")
    case True
    with None sd have "up w self t =
         (Inr (), NewAdapterProxy (createAdapterPath (m_name self)) None # ds
                    @ [GetPowered (createAdapterPath (m_name self)) True])"
      by (simp add: up_run)
    then show ?thesis using ds by (rule powered)
  next
    case False
    obtain r es where run:
      "waitUntilPoweredChange w self (createAdapterPath (m_name self)) True
         (t + 3 + length ds) = (r, es)"
      by (cases "waitUntilPoweredChange w self (createAdapterPath (m_name self)) True
         (t + 3 + length ds)")
    with None sd False have "up w self t =
         (r, NewAdapterProxy (createAdapterPath (m_name self)) None # ds
               @ GetPowered (createAdapterPath (m_name self)) False
               # SetPowered (createAdapterPath (m_name self)) True # es)"
      by (simp add: up_run)
    then show ?thesis using ds run by (rule unpowered)
  qed
  show ?thesis
  proof (cases rule: startDiscovery_cases
      [where w = w and adapter = "m_adapter self" and trasport = "''le''" and t = "t + 1"])
    case running
    then show ?thesis by (rule split_up) simp
  next
    case (refused m)
    with None have "up w self t =
         (Inl (IOException m),
          [NewAdapterProxy (createAdapterPath (m_name self)) None,
           GetDiscovering (adapter_path (m_adapter self)) False,
           SetDiscoveryFilter (adapter_path (m_adapter self)) ''le'' (Some m)])"
      by (simp add: up_run)
    then show ?thesis by (rule that(2))
  next
    case started
    then show ?thesis by (rule split_up) simp
  qed
qed

lemma down_cases:
  obtains
    (no_proxy) m where
      "down w self t =
         (Inl (IOException m),
          [Broadcast, NewAdapterProxy (createAdapterPath (m_name self)) (Some m)])"
  | (unpowered)
      "down w self t =
         (Inr (),
          [Broadcast, NewAdapterProxy (createAdapterPath (m_name self)) None,
           GetPowered (createAdapterPath (m_name self)) False])"
  | (powered) r es where
      "down w self t =
         (r, Broadcast # NewAdapterProxy (createAdapterPath (m_name self)) None
               # GetPowered (createAdapterPath (m_name self)) True
               # SetPowered (createAdapterPath (m_name self)) False # es)"
      "waitUntilPoweredChange w self (createAdapterPath (m_name self)) False (t + 4) = (r, es)"
proof (cases "adapter_proxy_error w (t + 1) (createAdapterPath (m_name self))")
  case (Some m)
  then have "down w self t =
         (Inl (IOException m),
          [Broadcast, NewAdapterProxy (createAdapterPath (m_name self)) (Some m)])"
    by (simp add: down_run)
  then show ?thesis by (rule no_proxy)
next
  case None
  show ?thesis
  proof (cases "adapter_powered w (t + 2) (createAdapterPath (m_name self))")
    case False
    with None have "down w self t =
         (Inr (),
          [Broadcast, NewAdapterProxy (createAdapterPath (m_name self)) None,
           GetPowered (createAdapterPath (m_name self)) False])"
      by (simp add: down_run)
    then show ?thesis by (rule unpowered)
  next
    case True
    obtain r es where run:
      "waitUntilPoweredChange w self (createAdapterPath (m_name self)) False (t + 4) = (r, es)"
      by (cases "waitUntilPoweredChange w self (createAdapterPath (m_name self)) False (t + 4)")
    with None True have "down w self t =
         (r, Broadcast # NewAdapterProxy (createAdapterPath (m_name self)) None
               # GetPowered (createAdapterPath (m_name self)) True
               # SetPowered (createAdapterPath (m_name self)) False # es)"
      by (simp add: down_run)
    then show ?thesis using run by (rule powered)
  qed
qed

text \<open>
  C8. \<open>up\<close> asks for power exactly when its own read of the power state, the first of the
  run, says "off"; when that read says "on", \<open>up\<close> returns with that single read and no
  power request. This holds from any starting time, so also for an \<open>up\<close> that follows
  another. \<open>down\<close> is the mirror image.
\<close>

theorem up_powered_is_noop:
  "(case up w self t of (r, tr) \<Rightarrow>
      power_requests tr = (if polls tr \<noteq> [] \<and> \<not> hd (polls tr) then [True] else [])
      \<and> (polls tr \<noteq> [] \<and> hd (polls tr) \<longrightarrow> r = Inr () \<and> polls tr = [True]))
   \<and> (case down w self t of (r, tr) \<Rightarrow>
      power_requests tr = (if polls tr \<noteq> [] \<and> hd (polls tr) then [False] else [])
      \<and> (polls tr \<noteq> [] \<and> \<not> hd (polls tr) \<longrightarrow> r = Inr () \<and> polls tr = [False]))"
proof (rule conjI)
  show "case up w self t of (r, tr) \<Rightarrow>
      power_requests tr = (if polls tr \<noteq> [] \<and> \<not> hd (polls tr) then [True] else [])
      \<and> (polls tr \<noteq> [] \<and> hd (polls tr) \<longrightarrow> r = Inr () \<and> polls tr = [True])"
  proof (cases rule: up_cases [where w = w and self = self and t = t])
    case (no_proxy m)
    then show ?thesis by simp
  next
    case (refused m)
    then show ?thesis by simp
  next
    case (powered ds)
    from powered(2) show ?thesis unfolding powered(1) by auto
  next
    case (unpowered ds r es t')
    from unpowered(2) wait_quiet(1) [OF unpowered(3)] show ?thesis
      unfolding unpowered(1) by auto
  qed
  show "case down w self t of (r, tr) \<Rightarrow>
      power_requests tr = (if polls tr \<noteq> [] \<and> hd (polls tr) then [False] else [])
      \<and> (polls tr \<noteq> [] \<and> \<not> hd (polls tr) \<longrightarrow> r = Inr () \<and> polls tr = [False])"
  proof (cases rule: down_cases [where w = w and self = self and t = t])
    case (no_proxy m)
    then show ?thesis by simp
  next
    case unpowered
    then show ?thesis by simp
  next
    case (powered r es)
    from wait_quiet(1) [OF powered(2)] show ?thesis unfolding powered(1) by simp
  qed
qed

theorem up_powered_is_noop_witness:
  "(case up (empty_world\<lparr>adapter_powered := \<lambda>t p. 10 \<le> t\<rparr>) hci0 11 of (r, tr) \<Rightarrow>
      r = Inr () \<and> polls tr = [True] \<and> power_requests tr = [])
   \<and> (case io_bind (up (empty_world\<lparr>adapter_powered := \<lambda>t p. 10 \<le> t\<rparr>) hci0)
              (\<lambda>_. up (empty_world\<lparr>adapter_powered := \<lambda>t p. 10 \<le> t\<rparr>) hci0) 0 of
      (r, tr) \<Rightarrow> r = Inr () \<and> length tr = 16
        \<and> polls tr = [False, False, True, True] \<and> power_requests tr = [True])"
  using up_powered_is_noop [where w = "empty_world\<lparr>adapter_powered := \<lambda>t p. 10 \<le> t\<rparr>"
      and self = hci0 and t = 11]
  by (simp add: io_bind_def up_run startDiscovery_run waitUntilPoweredChange_def loop_step
      empty_world_def hci0_def createAdapterPath_def)

text \<open>
  C10. Whenever a run of \<open>up\<close> reads the power state, the start-discovery step has been
  made before that read: the adapter was seen discovering, or the filter for the transport
  "le" was set and discovery started. A run that returns has read the power state, and a
  run whose read says "on" returns; so the step is made on the early-return path too. The
  only runs without the step are those that end in the IOException of the adapter proxy,
  before anything else is done.
\<close>

theorem up_starts_discovery_first:
  "case up w self t of (r, tr) \<Rightarrow>
     (polls tr \<noteq> [] \<longrightarrow>
        GetDiscovering (adapter_path (m_adapter self)) True \<in> set (before_power_read tr)
        \<or> (GetDiscovering (adapter_path (m_adapter self)) False \<in> set (before_power_read tr)
           \<and> SetDiscoveryFilter (adapter_path (m_adapter self)) ''le'' None
                \<in> set (before_power_read tr)
           \<and> StartDiscovery (adapter_path (m_adapter self)) \<in> set (before_power_read tr)))
     \<and> (polls tr \<noteq> [] \<and> hd (polls tr) \<longrightarrow> r = Inr ())
     \<and> (r = Inr () \<longrightarrow> polls tr \<noteq> [])
     \<and> ((\<forall>d. GetDiscovering (adapter_path (m_adapter self)) d \<notin> set tr) \<longrightarrow>
          (\<exists>m. r = Inl (IOException m)
             \<and> tr = [NewAdapterProxy (createAdapterPath (m_name self)) (Some m)]))"
proof (cases rule: up_cases [where w = w and self = self and t = t])
  case (no_proxy m)
  then show ?thesis by simp
next
  case (refused m)
  then show ?thesis by (auto simp: before_power_read_def)
next
  case (powered ds)
  from powered(2) show ?thesis unfolding powered(1)
    by (auto simp: before_power_read_def)
next
  case (unpowered ds r es t')
  from unpowered(2) show ?thesis unfolding unpowered(1)
    by (auto simp: before_power_read_def)
qed

theorem up_starts_discovery_first_witness:
  "case up (empty_world\<lparr>adapter_powered := \<lambda>t p. True\<rparr>) hci0 0 of (r, tr) \<Rightarrow>
     r = Inr ()
     \<and> tr = [NewAdapterProxy ''/org/bluez/hci0'' None,
             GetDiscovering ''/org/bluez/hci0'' False,
             SetDiscoveryFilter ''/org/bluez/hci0'' ''le'' None,
             StartDiscovery ''/org/bluez/hci0'',
             GetPowered ''/org/bluez/hci0'' True]
     \<and> before_power_read tr = butlast tr"
  using up_starts_discovery_first [where w = "empty_world\<lparr>adapter_powered := \<lambda>t p. True\<rparr>"
      and self = hci0 and t = 0]
  by (simp add: up_run startDiscovery_run empty_world_def hci0_def createAdapterPath_def
      before_power_read_def)

subsection \<open>Connecting\<close>

lemma connect_run:
  "connect w self address timeout t =
     (case device_proxy_error w t (createDevicePath w (m_name self) address) of
        Some m \<Rightarrow>
          (Inl (IOException m),
           [NewDeviceProxy (createDevicePath w (m_name self) address) (Some m)])
      | None \<Rightarrow>
          if device_connected w (t + 1) (createDevicePath w (m_name self) address)
          then
            (Inr \<lparr>conn_name = m_name self,
                  conn_device = OrgBluezDevice1 (createDevicePath w (m_name self) address),
                  conn_timeout = timeout\<rparr>,
             [NewDeviceProxy (createDevicePath w (m_name self) address) None,
              GetConnected (createDevicePath w (m_name self) address) True])
          else
            (case device_connect_error w (t + 3) (createDevicePath w (m_name self) address) of
               None \<Rightarrow>
                 (Inr \<lparr>conn_name = m_name self,
                       conn_device = OrgBluezDevice1 (createDevicePath w (m_name self) address),
                       conn_timeout = timeout\<rparr>,
                  [NewDeviceProxy (createDevicePath w (m_name self) address) None,
                   GetConnected (createDevicePath w (m_name self) address) False,
                   SetDefaultTimeout (createDevicePath w (m_name self) address)
                     (signed_take_bit 31 (totalMilliseconds timeout)),
                   CallConnect (createDevicePath w (m_name self) address) None])
             | Some m \<Rightarrow>
                 (Inl (IOException m),
                  [NewDeviceProxy (createDevicePath w (m_name self) address) None,
                   GetConnected (createDevicePath w (m_name self) address) False,
                   SetDefaultTimeout (createDevicePath w (m_name self) address)
                     (signed_take_bit 31 (totalMilliseconds timeout)),
                   CallConnect (createDevicePath w (m_name self) address) (Some m)])))"
  by (simp add: connect_def Let_def io_defs retrieveBluezDevice_run
      org_bluez_device1_get_connected_def g_dbus_proxy_set_default_timeout_def
      org_bluez_device1_call_connect_sync_def eval_nat_numeral
      split: option.splits)

text \<open>
  C9. When the device proxy of \<open>connect\<close> reports the device connected, the run consists of
  the creation of the proxy and that one read: no timeout is set on the proxy, no connect
  request is made, and the result is the connection made of the adapter's name, the device
  proxy and the timeout. Conversely a timeout is set or a connect request made only after
  the read said "not connected".
\<close>

theorem connect_already_connected:
  "case connect w self address timeout t of (r, tr) \<Rightarrow>
     (GetConnected (createDevicePath w (m_name self) address) True \<in> set tr \<longrightarrow>
        r = Inr \<lparr>conn_name = m_name self,
                 conn_device = OrgBluezDevice1 (createDevicePath w (m_name self) address),
                 conn_timeout = timeout\<rparr>
        \<and> tr = [NewDeviceProxy (createDevicePath w (m_name self) address) None,
                GetConnected (createDevicePath w (m_name self) address) True])
     \<and> ((\<exists>p e. CallConnect p e \<in> set tr) \<or> (\<exists>p ms. SetDefaultTimeout p ms \<in> set tr) \<longrightarrow>
        GetConnected (createDevicePath w (m_name self) address) False \<in> set tr)"
proof (cases "device_proxy_error w t (createDevicePath w (m_name self) address)")
  case (Some m)
  then show ?thesis by (simp add: connect_run)
next
  case None
  show ?thesis
  proof (cases "device_connected w (t + 1) (createDevicePath w (m_name self) address)")
    case True
    with None show ?thesis by (simp add: connect_run)
  next
    case False
    with None show ?thesis
      by (cases "device_connect_error w (t + 3) (createDevicePath w (m_name self) address)")
         (simp_all add: connect_run)
  qed
qed

theorem connect_already_connected_witness:
  "case connect (empty_world\<lparr>device_connected := \<lambda>t p. True\<rparr>) hci0 3 5000000 0 of
     (r, tr) \<Rightarrow>
       r = Inr \<lparr>conn_name = ''hci0'',
                conn_device = OrgBluezDevice1 ''/org/bluez/hci0/dev____'',
                conn_timeout = 5000000\<rparr>
       \<and> tr = [NewDeviceProxy ''/org/bluez/hci0/dev____'' None,
               GetConnected ''/org/bluez/hci0/dev____'' True]"
  using connect_already_connected
    [where w = "empty_world\<lparr>device_connected := \<lambda>t p. True\<rparr>" and self = hci0
       and address = 3 and timeout = 5000000 and t = 0]
  by (simp add: connect_run empty_world_def hci0_def createDevicePath_def eval_nat_numeral)

subsection \<open>Events a computation never issues\<close>

lemma never_emits_return: "never_emits P (io_return x)"
  by (simp add: never_emits_def io_return_def)

lemma never_emits_throw: "never_emits P (io_throw e)"
  by (simp add: never_emits_def io_throw_def)

lemma never_emits_call: "(\<And>x. \<not> P (ev x)) \<Longrightarrow> never_emits P (io_call answer ev)"
  by (simp add: never_emits_def io_call_def)

lemma never_emits_bind:
  assumes "never_emits P m" and "\<And>x. never_emits P (f x)"
  shows "never_emits P (io_bind m f)"
proof -
  have "filter P (snd (io_bind m f t)) = []" for t
  proof (cases "m t")
    case (Pair r es)
    with assms(1) have es: "filter P es = []"
      by (auto simp: never_emits_def dest: spec [where x = t])
    show ?thesis
    proof (cases r)
      case (Inl e)
      with Pair es show ?thesis by (simp add: io_bind_def)
    next
      case (Inr x)
      from assms(2) [of x] have "filter P (snd (f x (t + length es))) = []"
        by (simp add: never_emits_def)
      with Pair Inr es show ?thesis
        by (cases "f x (t + length es)") (simp add: io_bind_def)
    qed
  qed
  then show ?thesis by (simp add: never_emits_def)
qed

lemma never_emits_catch:
  assumes "never_emits P guarded" and "never_emits P action"
    and "\<And>x. never_emits P (continue x)" and "\<And>e. \<not> P (LogException e)"
  shows "never_emits P (io_catch_chain_action guarded action continue)"
proof -
  have "filter P (snd (io_catch_chain_action guarded action continue t)) = []" for t
  proof (cases "guarded t")
    case (Pair r es)
    with assms(1) have es: "filter P es = []"
      by (auto simp: never_emits_def dest: spec [where x = t])
    show ?thesis
    proof (cases r)
      case (Inl e)
      from assms(2) have "filter P (snd (action (t + length es + 1))) = []"
        by (simp add: never_emits_def)
      with Pair Inl es assms(4) show ?thesis
        by (cases "action (t + length es + 1)") (simp add: io_catch_chain_action_def)
    next
      case (Inr x)
      from assms(3) [of x] have "filter P (snd (continue x (t + length es))) = []"
        by (simp add: never_emits_def)
      with Pair Inr es show ?thesis
        by (cases "continue x (t + length es)") (simp add: io_catch_chain_action_def)
    qed
  qed
  then show ?thesis by (simp add: never_emits_def)
qed

lemma never_emits_if:
  "never_emits P m \<Longrightarrow> never_emits P n \<Longrightarrow> never_emits P (if c then m else n)"
  by simp

lemmas never_emits_intros =
  never_emits_return never_emits_throw never_emits_call never_emits_bind never_emits_catch
  never_emits_if

lemma retrieveBluezDevice_no_stop: "never_emits is_StopDiscovery (retrieveBluezDevice w path)"
  unfolding retrieveBluezDevice_def throwErrorIfAny_def
  by (intro never_emits_intros) (simp_all add: never_emits_intros split: option.split)

lemma retrieveBluezAdapter_no_stop: "never_emits is_StopDiscovery (retrieveBluezAdapter w path)"
  unfolding retrieveBluezAdapter_def throwErrorIfAny_def
  by (intro never_emits_intros) (simp_all add: never_emits_intros split: option.split)

lemma startDiscovery_no_stop: "never_emits is_StopDiscovery (startDiscovery w adapter trasport)"
  unfolding startDiscovery_def initDiscoveryFilter_def throwErrorIfAny_def
    org_bluez_adapter1_get_discovering_def org_bluez_adapter1_call_set_discovery_filter_sync_def
    org_bluez_adapter1_call_start_discovery_sync_def
  by (intro never_emits_intros) (simp_all add: never_emits_intros split: option.split)

lemma record_device_no_stop:
  assumes "\<And>devices'. never_emits is_StopDiscovery (k devices')"
  shows "never_emits is_StopDiscovery
     (io_bind (org_bluez_device1_get_address w device) (\<lambda>address.
      io_bind (MACAddress_parse w address) (\<lambda>mac.
      io_bind (org_bluez_device1_get_name w device) (\<lambda>charName.
      let name = (case charName of None \<Rightarrow> ''unknown'' | Some s \<Rightarrow> s) in
      k (emplace mac name devices)))))"
  unfolding org_bluez_device1_get_address_def org_bluez_device1_get_name_def
    MACAddress_parse_def Let_def
  by (intro never_emits_intros) (simp_all add: never_emits_intros assms split: sum.split)

lemma processKnownDevices_loop_no_stop:
  "never_emits is_StopDiscovery (processKnownDevices_loop w paths devices)"
proof (induction paths arbitrary: devices)
  case Nil
  show ?case by (simp add: never_emits_return)
next
  case (Cons path paths)
  show ?case
    unfolding processKnownDevices_loop.simps
    by (intro never_emits_catch retrieveBluezDevice_no_stop Cons.IH record_device_no_stop)
       simp
qed

lemma onDBusObjectAdded_no_stop:
  "never_emits is_StopDiscovery (onDBusObjectAdded w objectManager path foundDevices)"
  unfolding onDBusObjectAdded_def
  by (intro never_emits_if never_emits_return never_emits_catch retrieveBluezDevice_no_stop
      record_device_no_stop)
     simp

lemma dispatchObjectAdded_no_stop:
  "never_emits is_StopDiscovery (dispatchObjectAdded w objectManager announced allDevices)"
proof (induction announced arbitrary: objectManager allDevices)
  case Nil
  show ?case by (simp add: never_emits_return)
next
  case (Cons object rest)
  show ?case
    unfolding dispatchObjectAdded.simps Let_def
    by (intro never_emits_bind never_emits_call onDBusObjectAdded_no_stop Cons.IH) simp
qed

lemma lescan_loop_no_stop:
  "never_emits is_StopDiscovery (lescan_loop w self allDevices foundDevices)"
proof (induction allDevices arbitrary: foundDevices)
  case Nil
  show ?case by (simp add: never_emits_return)
next
  case (Cons one rest)
  show ?case
    unfolding lescan_loop.simps org_bluez_device1_get_rssi_def
    by (intro never_emits_bind never_emits_call never_emits_if retrieveBluezDevice_no_stop
        Cons.IH) simp
qed

lemma lescan_no_stop: "never_emits is_StopDiscovery (lescan w self timeout)"
proof -
  have om: "never_emits is_StopDiscovery (createBluezObjectManager w)"
    by (simp add: never_emits_def createBluezObjectManager_def io_defs split: option.split)
  have wt: "never_emits is_StopDiscovery (m_waitCondition_tryWait w timeout)"
    by (simp add: never_emits_def m_waitCondition_tryWait_def)
  show ?thesis
    unfolding lescan_def processKnownDevices_def
    by (intro never_emits_bind never_emits_call om wt processKnownDevices_loop_no_stop
        startDiscovery_no_stop dispatchObjectAdded_no_stop lescan_loop_no_stop) simp
qed

lemma io_bind_InrE:
  assumes "io_bind m f t = (Inr y, tr)"
  obtains x es es' where "m t = (Inr x, es)" and "f x (t + length es) = (Inr y, es')"
    and "tr = es @ es'"
proof (cases "m t")
  case (Pair r es)
  show ?thesis
  proof (cases r)
    case (Inl e)
    with Pair assms show ?thesis by (simp add: io_bind_def)
  next
    case (Inr x)
    obtain r' es' where f: "f x (t + length es) = (r', es')"
      by (cases "f x (t + length es)")
    with Pair Inr assms have "r' = Inr y" and "tr = es @ es'"
      by (simp_all add: io_bind_def)
    with Pair Inr f show ?thesis by (intro that [of x es es']) simp_all
  qed
qed

lemma never_emits_run: "never_emits P m \<Longrightarrow> filter P (snd (m t)) = []"
  by (simp add: never_emits_def)

lemma up_no_stop: "filter is_StopDiscovery (snd (up w self t)) = []"
proof (cases rule: up_cases [where w = w and self = self and t = t])
  case (no_proxy m)
  then show ?thesis by simp
next
  case (refused m)
  then show ?thesis by simp
next
  case (powered ds)
  from powered(2) show ?thesis unfolding powered(1) by auto
next
  case (unpowered ds r es t')
  from unpowered(2) wait_quiet(2) [OF unpowered(3)] show ?thesis
    unfolding unpowered(1) by auto
qed

lemma down_no_stop:
  "filter is_StopDiscovery (snd (down w self t)) = []"
  "power_requests (snd (down w self t)) = [] \<or> power_requests (snd (down w self t)) = [False]"
proof -
  show "filter is_StopDiscovery (snd (down w self t)) = []"
  proof (cases rule: down_cases [where w = w and self = self and t = t])
    case (no_proxy m)
    then show ?thesis by simp
  next
    case unpowered
    then show ?thesis by simp
  next
    case (powered r es)
    from wait_quiet(2) [OF powered(2)] show ?thesis unfolding powered(1) by simp
  qed
  show "power_requests (snd (down w self t)) = []
    \<or> power_requests (snd (down w self t)) = [False]"
  proof (cases rule: down_cases [where w = w and self = self and t = t])
    case (no_proxy m)
    then show ?thesis by simp
  next
    case unpowered
    then show ?thesis by simp
  next
    case (powered r es)
    from wait_quiet(1) [OF powered(2)] show ?thesis unfolding powered(1) by simp
  qed
qed

lemma connect_no_stop: "filter is_StopDiscovery (snd (connect w self address timeout t)) = []"
  by (simp add: connect_run split: option.split)

lemma delete_run:
  "fst (DBusHciInterface_delete w self t) = Inr ()"
  "filter is_StopDiscovery (snd (DBusHciInterface_delete w self t)) =
     (if adapter_discovering w t (adapter_path (m_adapter self))
      then [StopDiscovery (adapter_path (m_adapter self))] else [])"
  by (simp_all add: DBusHciInterface_delete_def stopDiscovery_def io_defs
      io_catch_chain_action_def m_thread_join_def org_bluez_adapter1_get_discovering_def
      org_bluez_adapter1_call_stop_discovery_sync_def split: option.split)

lemma lescan_ensures_discovery:
  assumes "lescan w self timeout t = (Inr found, tr)"
  shows "GetDiscovering (adapter_path (m_adapter self)) True \<in> set tr
    \<or> StartDiscovery (adapter_path (m_adapter self)) \<in> set tr"
proof -
  from assms [unfolded lescan_def]
  obtain objectManager es1 tr1 where
    r1: "io_bind (processKnownDevices w self objectManager []) (\<lambda>allDevices.
         io_bind (io_call (\<lambda>t. ()) (\<lambda>_. SignalConnectObjectAdded)) (\<lambda>_.
         io_bind (startDiscovery w (m_adapter self) ''le'') (\<lambda>_.
         io_bind (m_waitCondition_tryWait w timeout) (\<lambda>announced.
         io_bind (dispatchObjectAdded w objectManager announced allDevices) (\<lambda>allDevices'.
         lescan_loop w self allDevices' []))))) (t + length es1) = (Inr found, tr1)"
    and t1: "tr = es1 @ tr1"
    by (rule io_bind_InrE)
  from r1 obtain allDevices es2 tr2 where
    r2: "io_bind (io_call (\<lambda>t. ()) (\<lambda>_. SignalConnectObjectAdded)) (\<lambda>_.
         io_bind (startDiscovery w (m_adapter self) ''le'') (\<lambda>_.
         io_bind (m_waitCondition_tryWait w timeout) (\<lambda>announced.
         io_bind (dispatchObjectAdded w objectManager announced allDevices) (\<lambda>allDevices'.
         lescan_loop w self allDevices' [])))) (t + length es1 + length es2) = (Inr found, tr2)"
    and t2: "tr1 = es2 @ tr2"
    by (rule io_bind_InrE)
  from r2 obtain u es3 tr3 where
    r3: "io_bind (startDiscovery w (m_adapter self) ''le'') (\<lambda>_.
         io_bind (m_waitCondition_tryWait w timeout) (\<lambda>announced.
         io_bind (dispatchObjectAdded w objectManager announced allDevices) (\<lambda>allDevices'.
         lescan_loop w self allDevices' []))) (t + length es1 + length es2 + length es3)
         = (Inr found, tr3)"
    and t3: "tr2 = es3 @ tr3"
    by (rule io_bind_InrE)
  from r3 obtain u' ds tr4 where
    sd: "startDiscovery w (m_adapter self) ''le'' (t + length es1 + length es2 + length es3)
         = (Inr u', ds)"
    and t4: "tr3 = ds @ tr4"
    by (rule io_bind_InrE)
  have "GetDiscovering (adapter_path (m_adapter self)) True \<in> set ds
    \<or> StartDiscovery (adapter_path (m_adapter self)) \<in> set ds"
  proof (cases rule: startDiscovery_cases [where w = w and adapter = "m_adapter self"
      and trasport = "''le''" and t = "t + length es1 + length es2 + length es3"])
    case running
    with sd show ?thesis by auto
  next
    case (refused m)
    with sd show ?thesis by auto
  next
    case started
    with sd show ?thesis by auto
  qed
  then show ?thesis unfolding t1 t2 t3 t4 by auto
qed

text \<open>
  C6. No run of \<open>lescan\<close> issues a stop-discovery request, and a \<open>lescan\<close> that returns has
  seen the adapter discovering or has started discovery itself. Neither \<open>up\<close>, \<open>down\<close> nor
  \<open>connect\<close> issues one; the only request \<open>down\<close> makes of the adapter is to power it off.
  The destructor is the one place that stops discovery: it issues the request exactly when
  the adapter is discovering.
\<close>

theorem lescan_never_stops_discovery:
  "filter is_StopDiscovery (snd (lescan w self timeout t)) = []
   \<and> (\<forall>found. fst (lescan w self timeout t) = Inr found \<longrightarrow>
        GetDiscovering (adapter_path (m_adapter self)) True \<in> set (snd (lescan w self timeout t))
        \<or> StartDiscovery (adapter_path (m_adapter self)) \<in> set (snd (lescan w self timeout t)))
   \<and> filter is_StopDiscovery (snd (up w self t)) = []
   \<and> filter is_StopDiscovery (snd (connect w self address timeout t)) = []
   \<and> filter is_StopDiscovery (snd (down w self t)) = []
   \<and> (power_requests (snd (down w self t)) = [] \<or> power_requests (snd (down w self t)) = [False])
   \<and> filter is_StopDiscovery (snd (DBusHciInterface_delete w self t)) =
        (if adapter_discovering w t (adapter_path (m_adapter self))
         then [StopDiscovery (adapter_path (m_adapter self))] else [])"
proof -
  have a: "filter is_StopDiscovery (snd (lescan w self timeout t)) = []"
    using lescan_no_stop by (rule never_emits_run)
  have b: "\<forall>found. fst (lescan w self timeout t) = Inr found \<longrightarrow>
        GetDiscovering (adapter_path (m_adapter self)) True \<in> set (snd (lescan w self timeout t))
        \<or> StartDiscovery (adapter_path (m_adapter self)) \<in> set (snd (lescan w self timeout t))"
  proof (intro allI impI)
    fix found assume "fst (lescan w self timeout t) = Inr found"
    then have "lescan w self timeout t = (Inr found, snd (lescan w self timeout t))"
      by (cases "lescan w self timeout t") simp
    then show "GetDiscovering (adapter_path (m_adapter self)) True
          \<in> set (snd (lescan w self timeout t))
        \<or> StartDiscovery (adapter_path (m_adapter self)) \<in> set (snd (lescan w self timeout t))"
      by (rule lescan_ensures_discovery)
  qed
  show ?thesis
    by (intro conjI a b up_no_stop connect_no_stop down_no_stop delete_run(2))
qed

theorem lescan_never_stops_discovery_witness:
  "lescan empty_world hci0 2000000 0 =
     (Inr [],
      [NewObjectManager None, SignalConnectObjectAdded,
       GetDiscovering ''/org/bluez/hci0'' False,
       SetDiscoveryFilter ''/org/bluez/hci0'' ''le'' None,
       StartDiscovery ''/org/bluez/hci0'',
       WaitConditionTryWait 2000000])
   \<and> snd (DBusHciInterface_delete (empty_world\<lparr>adapter_discovering := \<lambda>t p. True\<rparr>) hci0 7) =
     [GetDiscovering ''/org/bluez/hci0'' True, StopDiscovery ''/org/bluez/hci0'',
      MainLoopIsRunning True, MainLoopQuit, ThreadJoin None]"
  using lescan_never_stops_discovery [where w = empty_world and self = hci0
      and timeout = 2000000 and t = 0 and address = 0]
  by (simp add: lescan_def createBluezObjectManager_def processKnownDevices_def
      retrievePathsOfBluezObjects_def io_defs startDiscovery_run m_waitCondition_tryWait_def
      DBusHciInterface_delete_def stopDiscovery_def io_catch_chain_action_def
      m_thread_join_def org_bluez_adapter1_get_discovering_def
      org_bluez_adapter1_call_stop_discovery_sync_def empty_world_def hci0_def)

subsection \<open>The device map\<close>

lemma emplace_keys: "fst ` set (emplace k v kvs) = insert k (fst ` set kvs)"
proof (induction kvs)
  case Nil
  show ?case by simp
next
  case (Cons kv kvs)
  then show ?case by (cases kv) (simp add: insert_commute)
qed

lemma emplace_sorted:
  "sorted_wrt (<) (map fst kvs) \<Longrightarrow> sorted_wrt (<) (map fst (emplace k v kvs))"
proof (induction kvs)
  case Nil
  show ?case by simp
next
  case (Cons kv kvs)
  obtain k' v' where kv: "kv = (k', v')" by (cases kv)
  from Cons.prems have tl: "sorted_wrt (<) (map fst kvs)" and hd: "\<forall>x \<in> fst ` set kvs. k' < x"
    by (auto simp: kv)
  show ?case
  proof (cases "k = k'")
    case True
    with Cons.prems show ?thesis by (simp add: kv)
  next
    case False
    show ?thesis
    proof (cases "k < k'")
      case True
      with Cons.prems show ?thesis by (auto simp: kv)
    next
      case notless: False
      with False have "k' < k" by simp
      with hd have "\<forall>x \<in> fst ` set (emplace k v kvs). k' < x"
        by (simp add: emplace_keys)
      with False notless Cons.IH [OF tl] show ?thesis by (simp add: kv)
    qed
  qed
qed

lemma emplace_set:
  "sorted_wrt (<) (map fst kvs) \<Longrightarrow>
   set (emplace k v kvs) = (if k \<in> fst ` set kvs then set kvs else insert (k, v) (set kvs))"
proof (induction kvs)
  case Nil
  show ?case by simp
next
  case (Cons kv kvs)
  obtain k' v' where kv: "kv = (k', v')" by (cases kv)
  from Cons.prems have tl: "sorted_wrt (<) (map fst kvs)" and hd: "\<forall>x \<in> fst ` set kvs. k' < x"
    by (auto simp: kv)
  show ?case
  proof (cases "k = k'")
    case True
    then show ?thesis by (simp add: kv)
  next
    case False
    show ?thesis
    proof (cases "k < k'")
      case True
      with hd have "k \<notin> fst ` set kvs" by auto
      with True False show ?thesis by (simp add: kv)
    next
      case notless: False
      with False Cons.IH [OF tl] show ?thesis by (auto simp: kv)
    qed
  qed
qed

lemma emplace_last:
  "\<forall>x \<in> fst ` set kvs. x < k \<Longrightarrow> emplace k v kvs = kvs @ [(k, v)]"
  by (induction kvs) auto

subsection \<open>One round of each loop of the discovery\<close>

lemma record_device_run:
  "io_bind (org_bluez_device1_get_address w device) (\<lambda>address.
   io_bind (MACAddress_parse w address) (\<lambda>mac.
   io_bind (org_bluez_device1_get_name w device) (\<lambda>charName.
   k (emplace mac (case charName of None \<Rightarrow> ''unknown'' | Some s \<Rightarrow> s) devices)))) t =
   (case mac_parse w (device_address w t (device_path device)) of
      Inl e \<Rightarrow>
        (Inl e, [GetAddress (device_path device) (device_address w t (device_path device))])
    | Inr mac \<Rightarrow>
        (case k (emplace mac
                  (case device_name w (t + 1) (device_path device) of
                     None \<Rightarrow> ''unknown'' | Some s \<Rightarrow> s) devices) (t + 2) of
           (r, es) \<Rightarrow>
             (r, GetAddress (device_path device) (device_address w t (device_path device))
                 # GetName (device_path device) (device_name w (t + 1) (device_path device))
                 # es)))"
  by (simp add: io_defs Let_def org_bluez_device1_get_address_def org_bluez_device1_get_name_def
      MACAddress_parse_def eval_nat_numeral split: sum.splits prod.splits)

lemma processKnownDevices_loop_step:
  "processKnownDevices_loop w (path # paths) devices t =
     (case device_proxy_error w t path of
        Some m \<Rightarrow>
          (case processKnownDevices_loop w paths devices (t + 2) of
             (r, es) \<Rightarrow>
               (r, NewDeviceProxy path (Some m) # LogException (IOException m) # es))
      | None \<Rightarrow>
          (case mac_parse w (device_address w (t + 1) path) of
             Inl e \<Rightarrow>
               (Inl e, [NewDeviceProxy path None, GetAddress path (device_address w (t + 1) path)])
           | Inr mac \<Rightarrow>
               (case processKnownDevices_loop w paths
                       (emplace mac
                          (case device_name w (t + 2) path of
                             None \<Rightarrow> ''unknown'' | Some s \<Rightarrow> s) devices) (t + 3) of
                  (r, es) \<Rightarrow>
                    (r, NewDeviceProxy path None
                        # GetAddress path (device_address w (t + 1) path)
                        # GetName path (device_name w (t + 2) path) # es))))"
  by (simp add: io_catch_chain_action_def retrieveBluezDevice_run record_device_run Let_def
      eval_nat_numeral split: option.splits sum.splits prod.splits)

lemma onDBusObjectAdded_run:
  "onDBusObjectAdded w objectManager path foundDevices t =
     (if \<not> g_dbus_object_manager_get_interface objectManager path ''org.bluez.Device1''
      then (Inr foundDevices, [])
      else
        (case device_proxy_error w t path of
           Some m \<Rightarrow>
             (Inr foundDevices, [NewDeviceProxy path (Some m), LogException (IOException m)])
         | None \<Rightarrow>
             (case mac_parse w (device_address w (t + 1) path) of
                Inl e \<Rightarrow>
                  (Inl e,
                   [NewDeviceProxy path None, GetAddress path (device_address w (t + 1) path)])
              | Inr mac \<Rightarrow>
                  (Inr (emplace mac
                          (case device_name w (t + 2) path of
                             None \<Rightarrow> ''unknown'' | Some s \<Rightarrow> s) foundDevices),
                   [NewDeviceProxy path None,
                    GetAddress path (device_address w (t + 1) path),
                    GetName path (device_name w (t + 2) path)]))))"
  by (simp add: onDBusObjectAdded_def io_catch_chain_action_def retrieveBluezDevice_run
      io_defs Let_def org_bluez_device1_get_address_def org_bluez_device1_get_name_def
      MACAddress_parse_def eval_nat_numeral
      split: option.splits sum.splits prod.splits)

lemma lescan_loop_step:
  "lescan_loop w self (one # rest) foundDevices t =
     (case device_proxy_error w t (createDevicePath w (m_name self) (fst one)) of
        Some m \<Rightarrow>
          (Inl (IOException m),
           [NewDeviceProxy (createDevicePath w (m_name self) (fst one)) (Some m)])
      | None \<Rightarrow>
          (case lescan_loop w self rest
                  (if device_rssi w (t + 1) (createDevicePath w (m_name self) (fst one)) \<noteq> 0
                   then emplace (fst one) (snd one) foundDevices else foundDevices) (t + 2) of
             (r, es) \<Rightarrow>
               (r, NewDeviceProxy (createDevicePath w (m_name self) (fst one)) None
                   # GetRssi (createDevicePath w (m_name self) (fst one))
                       (device_rssi w (t + 1) (createDevicePath w (m_name self) (fst one)))
                   # es)))"
  by (simp add: io_defs retrieveBluezDevice_run org_bluez_device1_get_rssi_def
      eval_nat_numeral split: option.splits prod.splits)

lemma io_bind_assoc:
  "io_bind (io_bind m f) g = io_bind m (\<lambda>x. io_bind (f x) g)"
proof
  fix t
  show "io_bind (io_bind m f) g t = io_bind m (\<lambda>x. io_bind (f x) g) t"
  proof (cases "m t")
    case (Pair r es)
    show ?thesis
    proof (cases r)
      case (Inl e)
      with Pair show ?thesis by (simp add: io_bind_def)
    next
      case (Inr x)
      obtain r' es' where f: "f x (t + length es) = (r', es')"
        by (cases "f x (t + length es)")
      show ?thesis
      proof (cases r')
        case (Inl e)
        with Pair Inr f show ?thesis by (simp add: io_bind_def)
      next
        case inner: (Inr y)
        obtain r'' es'' where g: "g y (t + length es + length es') = (r'', es'')"
          by (cases "g y (t + length es + length es')")
        with Pair Inr f inner show ?thesis by (simp add: io_bind_def add.assoc)
      qed
    qed
  qed
qed

lemma lescan_split:
  "lescan w self timeout =
     io_bind (lescan_accumulate w self timeout) (\<lambda>allDevices. lescan_loop w self allDevices [])"
  by (simp add: lescan_def lescan_accumulate_def io_bind_assoc)

declare processKnownDevices_loop.simps(2) [simp del]
declare dispatchObjectAdded.simps(2) [simp del]
declare lescan_loop.simps(2) [simp del]

subsection \<open>The accumulated map is ordered\<close>

lemma processKnownDevices_loop_sorted:
  "sorted_wrt (<) (map fst devices) \<Longrightarrow>
   processKnownDevices_loop w paths devices t = (Inr devices', tr) \<Longrightarrow>
   sorted_wrt (<) (map fst devices')"
proof (induction paths arbitrary: devices t tr)
  case Nil
  then show ?case by (simp add: io_return_def)
next
  case (Cons path paths)
  show ?case
  proof (cases "device_proxy_error w t path")
    case (Some m)
    obtain r es where rec: "processKnownDevices_loop w paths devices (t + 2) = (r, es)"
      by (cases "processKnownDevices_loop w paths devices (t + 2)")
    with Cons.prems(2) Some have "r = Inr devices'"
      by (simp add: processKnownDevices_loop_step)
    with rec Cons.IH [OF Cons.prems(1)] show ?thesis by simp
  next
    case None
    show ?thesis
    proof (cases "mac_parse w (device_address w (t + 1) path)")
      case (Inl e)
      with Cons.prems(2) None show ?thesis by (simp add: processKnownDevices_loop_step)
    next
      case (Inr mac)
      define devices2 where "devices2 = emplace mac
          (case device_name w (t + 2) path of None \<Rightarrow> ''unknown'' | Some s \<Rightarrow> s) devices"
      obtain r es where rec: "processKnownDevices_loop w paths devices2 (t + 3) = (r, es)"
        by (cases "processKnownDevices_loop w paths devices2 (t + 3)")
      with Cons.prems(2) None Inr have "r = Inr devices'"
        by (simp add: processKnownDevices_loop_step devices2_def)
      moreover have "sorted_wrt (<) (map fst devices2)"
        unfolding devices2_def using Cons.prems(1) by (rule emplace_sorted)
      ultimately show ?thesis using rec Cons.IH by simp
    qed
  qed
qed

lemma onDBusObjectAdded_sorted:
  "sorted_wrt (<) (map fst foundDevices) \<Longrightarrow>
   onDBusObjectAdded w objectManager path foundDevices t = (Inr foundDevices', tr) \<Longrightarrow>
   sorted_wrt (<) (map fst foundDevices')"
  by (auto simp: onDBusObjectAdded_run emplace_sorted split: if_splits option.splits sum.splits)

lemma dispatchObjectAdded_sorted:
  "sorted_wrt (<) (map fst allDevices) \<Longrightarrow>
   dispatchObjectAdded w objectManager announced allDevices t = (Inr allDevices', tr) \<Longrightarrow>
   sorted_wrt (<) (map fst allDevices')"
proof (induction announced arbitrary: objectManager allDevices t tr)
  case Nil
  then show ?case by (simp add: io_return_def)
next
  case (Cons object rest)
  from Cons.prems(2) [unfolded dispatchObjectAdded.simps Let_def]
  obtain u and es1 :: "event list" and tr1 where
    r1: "io_bind (onDBusObjectAdded w (GDBusObjectManager (object # objects objectManager))
                    (fst object) allDevices) (\<lambda>allDevices'.
         dispatchObjectAdded w (GDBusObjectManager (object # objects objectManager)) rest
           allDevices') (t + length es1) = (Inr allDevices', tr1)"
    by (rule io_bind_InrE)
  from r1 obtain allDevices2 and es2 :: "event list" and tr2 where
    cb: "onDBusObjectAdded w (GDBusObjectManager (object # objects objectManager))
           (fst object) allDevices (t + length es1) = (Inr allDevices2, es2)"
    and rec: "dispatchObjectAdded w (GDBusObjectManager (object # objects objectManager)) rest
           allDevices2 (t + length es1 + length es2) = (Inr allDevices', tr2)"
    by (rule io_bind_InrE)
  from Cons.prems(1) cb have "sorted_wrt (<) (map fst allDevices2)"
    by (rule onDBusObjectAdded_sorted)
  then show ?case using rec by (rule Cons.IH)
qed

lemma lescan_accumulate_sorted:
  assumes "lescan_accumulate w self timeout t = (Inr allDevices, tr)"
  shows "sorted_wrt (<) (map fst allDevices)"
proof -
  from assms [unfolded lescan_accumulate_def]
  obtain objectManager and es1 :: "event list" and tr1 where
    r1: "io_bind (processKnownDevices w self objectManager []) (\<lambda>allDevices.
         io_bind (io_call (\<lambda>t. ()) (\<lambda>_. SignalConnectObjectAdded)) (\<lambda>_.
         io_bind (startDiscovery w (m_adapter self) ''le'') (\<lambda>_.
         io_bind (m_waitCondition_tryWait w timeout) (\<lambda>announced.
         dispatchObjectAdded w objectManager announced allDevices)))) (t + length es1)
         = (Inr allDevices, tr1)"
    by (rule io_bind_InrE)
  from r1 obtain known and es2 :: "event list" and tr2 where
    pk: "processKnownDevices w self objectManager [] (t + length es1) = (Inr known, es2)"
    and r2: "io_bind (io_call (\<lambda>t. ()) (\<lambda>_. SignalConnectObjectAdded)) (\<lambda>_.
         io_bind (startDiscovery w (m_adapter self) ''le'') (\<lambda>_.
         io_bind (m_waitCondition_tryWait w timeout) (\<lambda>announced.
         dispatchObjectAdded w objectManager announced known)))
         (t + length es1 + length es2) = (Inr allDevices, tr2)"
    by (rule io_bind_InrE)
  from r2 obtain u and es3 :: "event list" and tr3 where
    r3: "io_bind (startDiscovery w (m_adapter self) ''le'') (\<lambda>_.
         io_bind (m_waitCondition_tryWait w timeout) (\<lambda>announced.
         dispatchObjectAdded w objectManager announced known))
         (t + length es1 + length es2 + length es3) = (Inr allDevices, tr3)"
    by (rule io_bind_InrE)
  from r3 obtain u' and es4 :: "event list" and tr4 where
    r4: "io_bind (m_waitCondition_tryWait w timeout) (\<lambda>announced.
         dispatchObjectAdded w objectManager announced known)
         (t + length es1 + length es2 + length es3 + length es4) = (Inr allDevices, tr4)"
    by (rule io_bind_InrE)
  from r4 obtain announced and es5 :: "event list" and tr5 where
    r5: "dispatchObjectAdded w objectManager announced known
         (t + length es1 + length es2 + length es3 + length es4 + length es5)
         = (Inr allDevices, tr5)"
    by (rule io_bind_InrE)
  have "sorted_wrt (<) (map fst ([] :: ('a \<times> string) list))" by simp
  from this pk [unfolded processKnownDevices_def] have "sorted_wrt (<) (map fst known)"
    by (rule processKnownDevices_loop_sorted)
  then show ?thesis using r5 by (rule dispatchObjectAdded_sorted)
qed

subsection \<open>The last loop of the scan\<close>

lemma lescan_loop_filter:
  "sorted_wrt (<) (map fst (foundDevices @ allDevices)) \<Longrightarrow>
   lescan_loop w self allDevices foundDevices t = (Inr foundDevices', tr) \<Longrightarrow>
   foundDevices' = foundDevices
       @ map fst (filter (\<lambda>(kv, q). snd q \<noteq> 0) (zip allDevices (rssi_answers tr)))
   \<and> map fst (rssi_answers tr)
       = map (\<lambda>kv. createDevicePath w (m_name self) (fst kv)) allDevices"
proof (induction allDevices arbitrary: foundDevices t tr)
  case Nil
  then show ?case by (simp add: io_return_def)
next
  case (Cons one rest)
  define path where "path = createDevicePath w (m_name self) (fst one)"
  show ?case
  proof (cases "device_proxy_error w t path")
    case (Some m)
    with Cons.prems(2) show ?thesis by (simp add: lescan_loop_step path_def)
  next
    case None
    define found2 where "found2 =
      (if device_rssi w (t + 1) path \<noteq> 0 then emplace (fst one) (snd one) foundDevices
       else foundDevices)"
    obtain r es where rec: "lescan_loop w self rest found2 (t + 2) = (r, es)"
      by (cases "lescan_loop w self rest found2 (t + 2)")
    with Cons.prems(2) None have r: "r = Inr foundDevices'"
      and tr: "tr = NewDeviceProxy path None # GetRssi path (device_rssi w (t + 1) path) # es"
      by (simp_all add: lescan_loop_step path_def found2_def)
    from Cons.prems(1) have below: "\<forall>x \<in> fst ` set foundDevices. x < fst one"
      by (auto simp: sorted_wrt_append)
    have found2: "found2 = (if device_rssi w (t + 1) path \<noteq> 0 then foundDevices @ [one]
       else foundDevices)"
      unfolding found2_def using emplace_last [OF below, of "snd one"] by simp
    from Cons.prems(1) have "sorted_wrt (<) (map fst (found2 @ rest))"
      unfolding found2 by (auto simp: sorted_wrt_append)
    from Cons.IH [OF this rec [unfolded r]] show ?thesis
      unfolding tr found2 by (simp add: path_def)
  qed
qed

lemma zip_filter_nth:
  assumes "distinct xs" and "length ys = length xs" and "k < length xs"
  shows "xs ! k \<in> set (map fst (filter P (zip xs ys))) \<longleftrightarrow> P (xs ! k, ys ! k)"
proof
  assume "xs ! k \<in> set (map fst (filter P (zip xs ys)))"
  then obtain y where y: "(xs ! k, y) \<in> set (zip xs ys)" and P: "P (xs ! k, y)"
    by auto
  from y obtain i where i: "i < length xs" "xs ! i = xs ! k" "ys ! i = y"
    by (auto simp: in_set_zip assms(2))
  from assms(1) i(1) assms(3) i(2) have "i = k" by (simp add: nth_eq_iff_index_eq)
  with i(3) P show "P (xs ! k, ys ! k)" by simp
next
  assume P: "P (xs ! k, ys ! k)"
  from assms(2,3) have "(xs ! k, ys ! k) \<in> set (zip xs ys)"
    by (auto simp: in_set_zip)
  with P have "(xs ! k, ys ! k) \<in> set (filter P (zip xs ys))" by simp
  then have "fst (xs ! k, ys ! k) \<in> fst ` set (filter P (zip xs ys))" by (rule imageI)
  then show "xs ! k \<in> set (map fst (filter P (zip xs ys)))" by simp
qed

text \<open>
  C3. When \<open>lescan\<close> returns, its result is made of the entries of the accumulated map, in
  their order, whose signal-strength read gave a value other than 0: the last loop reads
  the signal strength once for each accumulated entry, at the device path of its address,
  and the k-th entry (equally: its address) is in the result exactly when the k-th answer
  is not 0. The addresses of the accumulated map are distinct, so this decides every
  address. (A run of \<open>lescan\<close> that ends in an exception returns no map.)
\<close>

theorem lescan_returns_visible_devices:
  assumes "lescan_accumulate w self timeout t = (Inr allDevices, es)"
    and "lescan w self timeout t = (Inr foundDevices, tr)"
  shows "foundDevices = map fst (filter (\<lambda>(kv, q). snd q \<noteq> 0)
                          (zip allDevices (rssi_answers (drop (length es) tr))))
    \<and> map fst (rssi_answers (drop (length es) tr))
        = map (\<lambda>kv. createDevicePath w (m_name self) (fst kv)) allDevices
    \<and> (\<forall>k < length allDevices.
          (allDevices ! k \<in> set foundDevices
             \<longleftrightarrow> snd (rssi_answers (drop (length es) tr) ! k) \<noteq> 0)
          \<and> (fst (allDevices ! k) \<in> fst ` set foundDevices
             \<longleftrightarrow> snd (rssi_answers (drop (length es) tr) ! k) \<noteq> 0))
    \<and> set foundDevices \<subseteq> set allDevices
    \<and> distinct (map fst allDevices)"
proof -
  define answers where "answers = rssi_answers (drop (length es) tr)"
  from assms(2) [unfolded lescan_split]
  obtain all' and es' :: "event list" and tr' where
    acc: "lescan_accumulate w self timeout t = (Inr all', es')"
    and loop': "lescan_loop w self all' [] (t + length es') = (Inr foundDevices, tr')"
    and tr: "tr = es' @ tr'"
    by (rule io_bind_InrE)
  from acc assms(1) have same: "all' = allDevices" "es' = es" by simp_all
  note loop = loop' [unfolded same]
  from tr same have answers: "answers = rssi_answers tr'" by (simp add: answers_def)
  have sorted: "sorted_wrt (<) (map fst allDevices)"
    using assms(1) by (rule lescan_accumulate_sorted)
  then have dk: "distinct (map fst allDevices)" by (simp add: strict_sorted_iff)
  then have d: "distinct allDevices" by (simp add: distinct_map)
  from sorted have "sorted_wrt (<) (map fst ([] @ allDevices))" by simp
  from lescan_loop_filter [OF this loop]
  have found: "foundDevices = map fst (filter (\<lambda>(kv, q). snd q \<noteq> 0) (zip allDevices answers))"
    and paths: "map fst answers = map (\<lambda>kv. createDevicePath w (m_name self) (fst kv)) allDevices"
    by (simp_all add: answers)
  from paths have len: "length answers = length allDevices"
    by (metis length_map)
  have sub: "set foundDevices \<subseteq> set allDevices"
  proof
    fix kv assume "kv \<in> set foundDevices"
    then obtain q where "(kv, q) \<in> set (zip allDevices answers)"
      unfolding found by auto
    then show "kv \<in> set allDevices" by (rule set_zip_leftD)
  qed
  have each: "(allDevices ! k \<in> set foundDevices \<longleftrightarrow> snd (answers ! k) \<noteq> 0)
      \<and> (fst (allDevices ! k) \<in> fst ` set foundDevices \<longleftrightarrow> snd (answers ! k) \<noteq> 0)"
    if k: "k < length allDevices" for k
  proof -
    from zip_filter_nth [OF d len k, of "\<lambda>(kv, q). snd q \<noteq> 0"]
    have entry: "allDevices ! k \<in> set foundDevices \<longleftrightarrow> snd (answers ! k) \<noteq> 0"
      unfolding found by simp
    have "allDevices ! k \<in> set foundDevices"
      if "fst (allDevices ! k) \<in> fst ` set foundDevices"
    proof -
      from that obtain kv where kv: "kv \<in> set foundDevices" "fst kv = fst (allDevices ! k)"
        by auto
      from kv(1) sub have in_all: "kv \<in> set allDevices" by blast
      from k have in_all': "allDevices ! k \<in> set allDevices" by (rule nth_mem)
      from dk have "inj_on fst (set allDevices)" by (simp add: distinct_map)
      from this kv(2) in_all in_all' have "kv = allDevices ! k" by (rule inj_onD)
      with kv(1) show ?thesis by simp
    qed
    then have "fst (allDevices ! k) \<in> fst ` set foundDevices
        \<longleftrightarrow> allDevices ! k \<in> set foundDevices"
      by blast
    with entry show ?thesis by simp
  qed
  show ?thesis
    unfolding answers_def [symmetric]
    using found paths each sub dk by blast
qed

theorem lescan_returns_visible_devices_witness:
  "fst (lescan_accumulate two_devices_world hci0 2000000 0) = Inr [(1, ''A''), (2, ''unknown'')]
   \<and> fst (lescan two_devices_world hci0 2000000 0) = Inr [(1, ''A'')]
   \<and> rssi_answers (snd (lescan two_devices_world hci0 2000000 0)) =
       [(''/org/bluez/hci0/dev__'', 5), (''/org/bluez/hci0/dev___'', 0)]
   \<and> set [(1::nat, ''A'')] \<subseteq> set [(1, ''A''), (2, ''unknown'')]"
proof -
  have twice: "replicate 2 c = [c, c]" for c :: char
    by (simp add: numeral_2_eq_2)
  note run = twice lescan_def lescan_accumulate_def createBluezObjectManager_def
    processKnownDevices_def retrievePathsOfBluezObjects_def pathFilter_def
    g_dbus_object_manager_get_interface_def processKnownDevices_loop_step
    startDiscovery_run m_waitCondition_tryWait_def lescan_loop_step createDevicePath_def
    io_defs two_devices_world_def empty_world_def hci0_def
  have acc: "lescan_accumulate two_devices_world hci0 2000000 0 =
      (Inr [(1, ''A''), (2, ''unknown'')],
       snd (lescan_accumulate two_devices_world hci0 2000000 0))"
    by (simp add: prod_eq_iff run)
  have les: "lescan two_devices_world hci0 2000000 0 =
      (Inr [(1, ''A'')], snd (lescan two_devices_world hci0 2000000 0))"
    by (simp add: prod_eq_iff run)
  have answers: "rssi_answers (snd (lescan two_devices_world hci0 2000000 0)) =
       [(''/org/bluez/hci0/dev__'', 5), (''/org/bluez/hci0/dev___'', 0)]"
    by (simp add: run)
  from lescan_returns_visible_devices [OF acc les]
  have sub: "set [(1::nat, ''A'')] \<subseteq> set [(1, ''A''), (2, ''unknown'')]"
    by blast
  have a: "fst (lescan_accumulate two_devices_world hci0 2000000 0)
      = Inr [(1, ''A''), (2, ''unknown'')]"
    by (subst acc) simp
  have b: "fst (lescan two_devices_world hci0 2000000 0) = Inr [(1, ''A'')]"
    by (subst les) simp
  show ?thesis by (intro conjI a b answers sub)
qed

subsection \<open>Devices that vanish during a scan\<close>

text \<open>
  C1. The two places that take the BEEEON_CATCH_CHAIN_ACTION around the device lookup
  (\<open>processKnownDevices\<close> and \<open>onDBusObjectAdded\<close>) log the failure and go on; the last
  loop of \<open>lescan\<close> calls \<open>retrieveBluezDevice\<close> with no handler around it. In the run
  below the first two failures are logged and skipped, and the third, on a device that was
  there when it was accumulated, ends \<open>lescan\<close> in the IOException: the caller gets no map.
\<close>

theorem lescan_last_loop_lookup_failure:
  "lescan vanishing_world hci0 2000000 0 =
     (Inl (IOException ''object vanished''),
      [NewObjectManager None,
       NewDeviceProxy ''/org/bluez/hci0/dev__'' (Some ''object vanished''),
       LogException (IOException ''object vanished''),
       NewDeviceProxy ''/org/bluez/hci0/dev___'' None,
       GetAddress ''/org/bluez/hci0/dev___'' ''bb'',
       GetName ''/org/bluez/hci0/dev___'' None,
       SignalConnectObjectAdded,
       GetDiscovering ''/org/bluez/hci0'' False,
       SetDiscoveryFilter ''/org/bluez/hci0'' ''le'' None,
       StartDiscovery ''/org/bluez/hci0'',
       WaitConditionTryWait 2000000,
       ObjectAdded ''/org/bluez/hci0/dev____'',
       NewDeviceProxy ''/org/bluez/hci0/dev____'' (Some ''object vanished''),
       LogException (IOException ''object vanished''),
       NewDeviceProxy ''/org/bluez/hci0/dev___'' (Some ''object vanished'')])"
proof -
  have twice: "replicate 2 c = [c, c]" for c :: char
    by (simp add: numeral_2_eq_2)
  show ?thesis
    by (simp add: twice lescan_def createBluezObjectManager_def
        processKnownDevices_def retrievePathsOfBluezObjects_def pathFilter_def
        g_dbus_object_manager_get_interface_def processKnownDevices_loop_step
        startDiscovery_run m_waitCondition_tryWait_def dispatchObjectAdded.simps(2)
        onDBusObjectAdded_run lescan_loop_step createDevicePath_def
        io_defs vanishing_world_def empty_world_def hci0_def)
qed

subsection \<open>Which registry objects seed the map\<close>

















subsection \<open>The interface manager\<close>

lemma DBusHciInterface_new_run:
  "DBusHciInterface_new w name t =
     (case adapter_proxy_error w t (createAdapterPath name) of
        Some m \<Rightarrow>
          (Inl (IOException m), [NewAdapterProxy (createAdapterPath name) (Some m)])
      | None \<Rightarrow>
          (Inr \<lparr>m_name = name, m_adapter = OrgBluezAdapter1 (createAdapterPath name)\<rparr>,
           [NewAdapterProxy (createAdapterPath name) None, ThreadStart]))"
  by (simp add: DBusHciInterface_new_def retrieveBluezAdapter_run io_defs split: option.splits)

lemma lookup_cached:
  "m_interfaces mgr name = Some it \<Longrightarrow> lookup w name mgr t = ((Inr it, mgr), [])"
  by (simp add: lookup_def)

lemma lookup_fresh:
  assumes "m_interfaces mgr name = None"
  shows "case adapter_proxy_error w t (createAdapterPath name) of
        None \<Rightarrow>
          lookup w name mgr t =
            ((Inr (length (allocated mgr)),
              mgr\<lparr>allocated := allocated mgr
                     @ [\<lparr>m_name = name, m_adapter = OrgBluezAdapter1 (createAdapterPath name)\<rparr>],
                   m_interfaces := (m_interfaces mgr)(name \<mapsto> length (allocated mgr))\<rparr>),
             [NewAdapterProxy (createAdapterPath name) None, ThreadStart])
      | Some m \<Rightarrow>
          lookup w name mgr t =
            ((Inl (IOException m), mgr), [NewAdapterProxy (createAdapterPath name) (Some m)])"
  using assms
  by (simp add: lookup_def DBusHciInterface_new_run map_emplace_def Let_def split: option.splits)

lemma lookup_again:
  assumes "lookup w name mgr t = ((Inr it, mgr'), es)"
  shows "lookup w name mgr' t' = ((Inr it, mgr'), [])"
proof (cases "m_interfaces mgr name")
  case (Some it')
  with assms have "it = it'" and "mgr' = mgr" by (simp_all add: lookup_def)
  with Some show ?thesis by (simp add: lookup_def)
next
  case None
  show ?thesis
  proof (cases "adapter_proxy_error w t (createAdapterPath name)")
    case (Some m)
    with lookup_fresh [OF None, of w t] assms show ?thesis by simp
  next
    case inner: None
    with lookup_fresh [OF None, of w t] assms
    have "it = length (allocated mgr)" and "m_interfaces mgr' name = Some (length (allocated mgr))"
      by auto
    then show ?thesis by (simp add: lookup_def)
  qed
qed

lemma lookup_keeps_one_per_name:
  assumes "one_per_name mgr"
  shows "one_per_name (snd (fst (lookup w name mgr t)))"
proof (cases "m_interfaces mgr name")
  case (Some it)
  with assms show ?thesis by (simp add: lookup_def)
next
  case None
  show ?thesis
  proof (cases "adapter_proxy_error w t (createAdapterPath name)")
    case (Some m)
    with lookup_fresh [OF None, of w t] assms show ?thesis by simp
  next
    case inner: None
    from assms have dist: "distinct (map m_name (allocated mgr))"
      and cached: "\<And>i. i < length (allocated mgr) \<Longrightarrow>
          m_interfaces mgr (m_name (allocated mgr ! i)) = Some i"
      by (simp_all add: one_per_name_def)
    have other: "m_name (allocated mgr ! i) \<noteq> name" if "i < length (allocated mgr)" for i
      using cached [OF that] None by auto
    have new: "name \<notin> set (map m_name (allocated mgr))"
    proof
      assume "name \<in> set (map m_name (allocated mgr))"
      then obtain i where "i < length (allocated mgr)" and "m_name (allocated mgr ! i) = name"
        by (auto simp: in_set_conv_nth)
      with other show False by blast
    qed
    define object where
      "object = \<lparr>m_name = name, m_adapter = OrgBluezAdapter1 (createAdapterPath name)\<rparr>"
    define mgr' where
      "mgr' = mgr\<lparr>allocated := allocated mgr @ [object],
                 m_interfaces := (m_interfaces mgr)(name \<mapsto> length (allocated mgr))\<rparr>"
    from lookup_fresh [OF None, of w t] inner
    have run: "snd (fst (lookup w name mgr t)) = mgr'"
      by (simp add: mgr'_def object_def)
    have d': "distinct (map m_name (allocated mgr'))"
      using dist new by (simp add: mgr'_def object_def)
    have c': "m_interfaces mgr' (m_name (allocated mgr' ! i)) = Some i"
      if "i < length (allocated mgr')" for i
    proof (cases "i < length (allocated mgr)")
      case True
      with cached [OF True] other [OF True] show ?thesis
        by (simp add: mgr'_def nth_append)
    next
      case False
      with that have "i = length (allocated mgr)" by (simp add: mgr'_def)
      then show ?thesis by (simp add: mgr'_def object_def)
    qed
    from d' c' show ?thesis unfolding run by (simp add: one_per_name_def)
  qed
qed

lemma lookup_threads_alone:
  "lookup_threads w nameA nameB [True, True, True] (AtFind, pcB, mgr, t) =
     (case lookup w nameA mgr t of
        ((Inl e, mgr'), es) \<Rightarrow> (Thrown e, pcB, mgr', t + length es)
      | ((Inr it, mgr'), es) \<Rightarrow> (Returned it, pcB, mgr', t + length es))"
  by (simp add: lookup_def DBusHciInterface_new_run Let_def split: option.splits)

text \<open>
  C2, for calls that do not overlap. A \<open>lookup\<close> of a cached name returns the cached
  pointer and constructs nothing; a \<open>lookup\<close> of a name that is not cached constructs one
  object, caches and returns it (or, when the constructor throws, passes the IOException
  on and leaves the manager as it was); the next \<open>lookup\<close> of the name, at any later time,
  returns the same pointer and constructs nothing. From the empty manager on, the objects
  allocated have different names, each cached under its name.
\<close>

theorem lookup_one_instance_per_name:
  "(\<forall>it. m_interfaces mgr name = Some it \<longrightarrow> lookup w name mgr t = ((Inr it, mgr), []))
   \<and> (m_interfaces mgr name = None \<longrightarrow>
        (case adapter_proxy_error w t (createAdapterPath name) of
           None \<Rightarrow>
             lookup w name mgr t =
               ((Inr (length (allocated mgr)),
                 mgr\<lparr>allocated := allocated mgr
                        @ [\<lparr>m_name = name,
                            m_adapter = OrgBluezAdapter1 (createAdapterPath name)\<rparr>],
                      m_interfaces := (m_interfaces mgr)(name \<mapsto> length (allocated mgr))\<rparr>),
                [NewAdapterProxy (createAdapterPath name) None, ThreadStart])
         | Some m \<Rightarrow>
             lookup w name mgr t =
               ((Inl (IOException m), mgr),
                [NewAdapterProxy (createAdapterPath name) (Some m)])))
   \<and> (\<forall>it mgr' es. lookup w name mgr t = ((Inr it, mgr'), es) \<longrightarrow>
        lookup w name mgr' t' = ((Inr it, mgr'), []))
   \<and> one_per_name DBusHciInterfaceManager_new
   \<and> (one_per_name mgr \<longrightarrow> one_per_name (snd (fst (lookup w name mgr t))))"
proof (intro conjI allI impI)
  show "one_per_name DBusHciInterfaceManager_new"
    by (simp add: one_per_name_def DBusHciInterfaceManager_new_def)
qed (erule lookup_cached lookup_fresh lookup_again lookup_keeps_one_per_name)+

theorem lookup_one_instance_per_name_witness:
  "case lookup empty_world ''hci0'' DBusHciInterfaceManager_new 0 of
     ((r, mgr), es) \<Rightarrow>
       r = Inr 0 \<and> map m_name (allocated mgr) = [''hci0'']
       \<and> es = [NewAdapterProxy ''/org/bluez/hci0'' None, ThreadStart]
       \<and> (case lookup empty_world ''hci0'' mgr 2 of
            ((r', mgr'), es') \<Rightarrow>
              r' = Inr 0 \<and> map m_name (allocated mgr') = [''hci0''] \<and> es' = [])"
  using lookup_one_instance_per_name
    [where w = empty_world and name = "''hci0''" and mgr = DBusHciInterfaceManager_new
       and t = 0 and t' = 2]
  by (simp add: lookup_def DBusHciInterface_new_run map_emplace_def
      DBusHciInterfaceManager_new_def empty_world_def createAdapterPath_def)

text \<open>
  C2, as the claim has it, fails for two threads: \<open>lookup\<close> takes no lock, and when the
  second thread runs its \<open>find\<close> before the first has run its \<open>emplace\<close>, both construct
  an object for the name and the two calls return different pointers.
\<close>

theorem lookup_two_threads_counterexample:
  "case lookup_threads empty_world ''hci0'' ''hci0'' [True, False, True, False, True, False]
          (AtFind, AtFind, DBusHciInterfaceManager_new, 0) of
     (pcA, pcB, mgr, t) \<Rightarrow>
       pcA = Returned 0 \<and> pcB = Returned 1
       \<and> map m_name (allocated mgr) = [''hci0'', ''hci0'']
       \<and> m_interfaces mgr ''hci0'' = Some 0"
  by (simp add: DBusHciInterface_new_run map_emplace_def DBusHciInterfaceManager_new_def
      empty_world_def createAdapterPath_def)

end
